theory Spec2Isabelle
  imports Complex_Main
begin

section \<open>Numbers of the source\<close>

text \<open>
  The source computes with JavaScript numbers, which are IEEE doubles.  A double is
  modelled as the \<^typ>\<open>real\<close> it denotes.  In the pinch selection, whose result depends
  on the last bit of the computed differences, every arithmetic operation is rounded as
  the machine rounds it (\<open>fl\<close> below).  The classifier and the particle layout are
  modelled in exact arithmetic.  There is no NaN, and no infinity other than the one
  written out below.  Counts and indices are \<^typ>\<open>nat\<close> or \<^typ>\<open>int\<close>; \<open>Date.now()\<close> is an
  \<^typ>\<open>int\<close> of milliseconds.
\<close>

text \<open>
  Rounding to the nearest double, ties to the even significand: 53 significant bits at
  the binary exponent of the argument.  The range of the exponent is not modelled: the
  values of the selection stay below 16 in magnitude, and a difference of two doubles
  that falls below the normal range is exact in the machine and here alike.
\<close>

definition round_even :: "real \<Rightarrow> int" where
  "round_even q =
     (let f = \<lfloor>q\<rfloor>; r = q - of_int f
      in if r < 1 / 2 then f else if r > 1 / 2 then f + 1 else if even f then f else f + 1)"

definition fl :: "real \<Rightarrow> real" where
  "fl x =
     (if x = 0 then 0
      else (let e = \<lfloor>log 2 \<bar>x\<bar>\<rfloor>; u = 2 powr (of_int e - 52)
            in of_int (round_even (x / u)) * u))"

text \<open>\<open>Math.PI\<close>: the double nearest to \<open>pi\<close>, \<open>0x400921FB54442D18\<close>.\<close>

definition MathPI :: real where
  "MathPI = 884279719003555 / 281474976710656"

text \<open>
  The \<open>%\<close> operator on numbers: the remainder takes the sign of the dividend.  The
  remainder of two doubles is a double, so nothing is rounded.
\<close>

definition js_rem :: "real \<Rightarrow> real \<Rightarrow> real" where
  "js_rem a b =
     (if 0 \<le> a / b then a - b * of_int \<lfloor>a / b\<rfloor> else a - b * of_int \<lceil>a / b\<rceil>)"

text \<open>
  \<open>Math.sin\<close>, \<open>Math.cos\<close> and \<open>Math.atan2\<close> of the language's library, taken as the
  rounded values of the functions (the language leaves their last bits to the
  implementation; it fixes \<open>Math.sin(0) = 0\<close> and \<open>Math.cos(0) = 1\<close>).  \<open>Math.atan2(y, x)\<close>
  follows its case table (signed zeros apart); on the positive and the negative \<open>y\<close>
  axis its value is the double \<open>Math.PI / 2\<close> with the sign of \<open>y\<close>.
\<close>

definition Math_sin :: "real \<Rightarrow> real" where
  "Math_sin x = fl (sin x)"

definition Math_cos :: "real \<Rightarrow> real" where
  "Math_cos x = fl (cos x)"

definition Math_atan2 :: "real \<Rightarrow> real \<Rightarrow> real" where
  "Math_atan2 y x =
     (if 0 < x then fl (arctan (y / x))
      else if x < 0 then (if 0 \<le> y then fl (arctan (y / x) + pi) else fl (arctan (y / x) - pi))
      else if 0 < y then MathPI / 2
      else if y < 0 then - (MathPI / 2)
      else 0)"

text \<open>
  \<open>diff < minDiff\<close> where \<open>minDiff\<close> starts as \<open>Infinity\<close>: \<open>None\<close> stands for
  \<open>Infinity\<close>, which every real is below.
\<close>

fun below :: "real \<Rightarrow> real option \<Rightarrow> bool" where
  "below d None = True"
| "below d (Some m) = (d < m)"

section \<open>The shared types (\<open>types.ts\<close>)\<close>

datatype TreeState = GATHERED | SCATTERED | FOCUS

record AppState =
  treeState :: TreeState
  useGestures :: bool
  currentGesture :: string
  photos :: "string list"
  bgmUrl :: "string option"
  focusedPhotoIndex :: "int option"
  customText :: string

section \<open>The application controller (\<open>App\<close>, the second component of \<open>Sidebar.tsx\<close>)\<close>

text \<open>The initial value given to \<open>useState\<close>, with the deployment defaults filled in.\<close>

definition initialAppState :: AppState where
  "initialAppState =
     \<lparr> treeState = GATHERED, useGestures = False, currentGesture = ''None'',
       photos = [], bgmUrl = Some '''', focusedPhotoIndex = None,
       customText = ''MERRY CHRISTMAS'' \<rparr>"

subsection \<open>Pinch selection\<close>

text \<open>
  Steps 1 to 4 of the pinch branch: the camera angle from the hand rotation, the camera
  position vector, and its angle in the photo coordinate system, normalised to \<open>0...2PI\<close>.
  The product \<open>Math.PI * 2\<close> is exact.
\<close>

definition targetAngleOf :: "real \<times> real \<Rightarrow> real" where
  "targetAngleOf currentRotation =
     (let camTheta = fl (fst currentRotation * 3.0);
          camX = Math_sin camTheta;
          camZ = Math_cos camTheta;
          targetDirX = camX;
          targetDirZ = camZ;
          targetAngle = Math_atan2 targetDirZ targetDirX
      in if targetAngle < 0 then fl (targetAngle + MathPI * 2) else targetAngle)"

text \<open>
  The body of the \<open>forEach\<close> callback up to the comparison: the difference for photo \<open>i\<close>,
  with the product, the subtraction and the subtraction from \<open>Math.PI * 2\<close> rounded.
\<close>

definition slotDiff :: "real \<Rightarrow> real \<Rightarrow> nat \<Rightarrow> real" where
  "slotDiff targetAngle angleStep i =
     (let pTheta = fl (real i * angleStep);
          pTheta = js_rem pTheta (MathPI * 2);
          diff = \<bar>fl (targetAngle - pTheta)\<bar>
      in if diff > MathPI then fl ((MathPI * 2) - diff) else diff)"

text \<open>One round of the \<open>forEach\<close>, on the pair \<open>(closestIndex, minDiff)\<close>.\<close>

definition selectStep ::
  "real \<Rightarrow> real \<Rightarrow> int \<times> real option \<Rightarrow> nat \<Rightarrow> int \<times> real option" where
  "selectStep targetAngle angleStep acc i =
     (let diff = slotDiff targetAngle angleStep i
      in if below diff (snd acc) then (int i, Some diff) else acc)"

text \<open>
  The angular step for \<open>n\<close> photos, \<open>(Math.PI * 2) / Math.max(1, n)\<close>, and the loop over the
  photo list, from \<open>closestIndex = -1\<close> and \<open>minDiff = Infinity\<close>.
\<close>

definition angleStepOf :: "nat \<Rightarrow> real" where
  "angleStepOf n = fl ((MathPI * 2) / real (max 1 n))"

definition closestIndex :: "real \<Rightarrow> nat \<Rightarrow> int" where
  "closestIndex targetAngle n =
     (let angleStep = angleStepOf n
      in fst (foldl (selectStep targetAngle angleStep) (-1, None) [0..<n]))"

subsection \<open>State updates\<close>

text \<open>The function passed to \<open>setAppState\<close> in \<open>handleGestureUpdate\<close>.\<close>

definition gestureUpdater :: "string \<Rightarrow> (real \<times> real) option \<Rightarrow> AppState \<Rightarrow> AppState" where
  "gestureUpdater gesture rotation prev =
     (let currentRotation = (case rotation of None \<Rightarrow> (0, 0) | Some r \<Rightarrow> r);
          (newState, newFocusedIndex) =
            (if gesture = ''Fist'' then (GATHERED, None)
             else if gesture = ''Open'' then (SCATTERED, None)
             else if gesture = ''Pinch'' then
               (if currentGesture prev \<noteq> ''Pinch'' \<and> treeState prev = SCATTERED then
                  (if length (photos prev) > 0 then
                     (treeState prev,
                      Some (closestIndex (targetAngleOf currentRotation) (length (photos prev))))
                   else (treeState prev, focusedPhotoIndex prev))
                else (treeState prev, focusedPhotoIndex prev))
             else (treeState prev, focusedPhotoIndex prev))
      in prev\<lparr> treeState := newState, currentGesture := gesture,
               focusedPhotoIndex := newFocusedIndex \<rparr>)"

text \<open>
  \<open>handleGestureUpdate\<close> on the application state (the separate \<open>handRotation\<close> cell, which
  only the camera reads, is left out).
\<close>

definition handleGestureUpdate :: "string \<Rightarrow> (real \<times> real) option \<Rightarrow> AppState \<Rightarrow> AppState" where
  "handleGestureUpdate gesture rotation s =
     (if \<not> useGestures s then s else gestureUpdater gesture rotation s)"

definition addPhoto :: "string \<Rightarrow> AppState \<Rightarrow> AppState" where
  "addPhoto url prev = prev\<lparr> photos := photos prev @ [url] \<rparr>"

text \<open>\<open>photos.filter((_, i) => i !== index)\<close>: the elements paired with their positions.\<close>

definition removePhoto :: "int \<Rightarrow> AppState \<Rightarrow> AppState" where
  "removePhoto index prev =
     prev\<lparr> photos :=
       map fst (filter (\<lambda>p. int (snd p) \<noteq> index) (zip (photos prev) [0..<length (photos prev)])) \<rparr>"

definition toggleGesture :: "AppState \<Rightarrow> AppState" where
  "toggleGesture prev = prev\<lparr> useGestures := \<not> useGestures prev \<rparr>"

definition setBgm :: "string \<Rightarrow> AppState \<Rightarrow> AppState" where
  "setBgm url prev = prev\<lparr> bgmUrl := Some url \<rparr>"

definition setCustomText :: "string \<Rightarrow> AppState \<Rightarrow> AppState" where
  "setCustomText text prev = prev\<lparr> customText := text \<rparr>"

definition toggleTreeState :: "AppState \<Rightarrow> AppState" where
  "toggleTreeState prev =
     prev\<lparr> treeState := (if treeState prev = GATHERED then SCATTERED else GATHERED),
           focusedPhotoIndex := None \<rparr>"

definition handlePhotoClick :: "int \<Rightarrow> AppState \<Rightarrow> AppState" where
  "handlePhotoClick index s =
     (if \<not> useGestures s \<and> treeState s = SCATTERED then
        s\<lparr> focusedPhotoIndex :=
             (if focusedPhotoIndex s = Some index then None else Some index) \<rparr>
      else s)"

subsection \<open>Events\<close>

text \<open>Every handler the component passes on, as one event type, and runs of events.\<close>

datatype event =
    GestureUpdate string "(real \<times> real) option"
  | AddPhoto string
  | RemovePhoto int
  | ToggleGesture
  | SetBgm string
  | SetCustomText string
  | ToggleTreeState
  | PhotoClick int

fun step :: "AppState \<Rightarrow> event \<Rightarrow> AppState" where
  "step s (GestureUpdate gesture rotation) = handleGestureUpdate gesture rotation s"
| "step s (AddPhoto url) = addPhoto url s"
| "step s (RemovePhoto index) = removePhoto index s"
| "step s ToggleGesture = toggleGesture s"
| "step s (SetBgm url) = setBgm url s"
| "step s (SetCustomText text) = setCustomText text s"
| "step s ToggleTreeState = toggleTreeState s"
| "step s (PhotoClick index) = handlePhotoClick index s"

definition run :: "AppState \<Rightarrow> event list \<Rightarrow> AppState" where
  "run s evs = foldl step s evs"

text \<open>An observation of the state and the event it is about to handle, along a run.\<close>

fun along :: "(AppState \<Rightarrow> event \<Rightarrow> 'a) \<Rightarrow> AppState \<Rightarrow> event list \<Rightarrow> 'a list" where
  "along f s [] = []"
| "along f s (e # evs) = f s e # along f (step s e) evs"

text \<open>
  The two conditions of the pinch branch, on the state an event meets: the label is a
  pinch and the stored label is not (the rising edge), and the whole guard under which
  \<open>newFocusedIndex = closestIndex\<close> is executed.
\<close>

definition isRisingEdge :: "AppState \<Rightarrow> event \<Rightarrow> bool" where
  "isRisingEdge prev e =
     (case e of
        GestureUpdate gesture rotation \<Rightarrow> gesture = ''Pinch'' \<and> currentGesture prev \<noteq> ''Pinch''
      | _ \<Rightarrow> False)"

definition selectionFires :: "AppState \<Rightarrow> event \<Rightarrow> bool" where
  "selectionFires prev e =
     (case e of
        GestureUpdate gesture rotation \<Rightarrow>
          useGestures prev \<and> gesture = ''Pinch'' \<and> currentGesture prev \<noteq> ''Pinch'' \<and>
          treeState prev = SCATTERED \<and> length (photos prev) > 0
      | _ \<Rightarrow> False)"

text \<open>\<open>focusedPhotoIndex\<close> is set only while the scene is scattered.\<close>

definition focusInv :: "AppState \<Rightarrow> bool" where
  "focusInv s = (focusedPhotoIndex s \<noteq> None \<longrightarrow> treeState s = SCATTERED)"

subsection \<open>States of the scenarios\<close>

text \<open>
  States of the scenarios: scattered, gestures on, with five, with ten and with six
  photos.
\<close>

definition fivePhotos :: AppState where
  "fivePhotos =
     \<lparr> treeState = SCATTERED, useGestures = True, currentGesture = ''None'',
       photos = [''p0'', ''p1'', ''p2'', ''p3'', ''p4''], bgmUrl = Some '''',
       focusedPhotoIndex = Some 3, customText = ''MERRY CHRISTMAS'' \<rparr>"

definition tenPhotos :: AppState where
  "tenPhotos =
     \<lparr> treeState = SCATTERED, useGestures = True, currentGesture = ''None'',
       photos = [''p0'', ''p1'', ''p2'', ''p3'', ''p4'', ''p5'', ''p6'', ''p7'', ''p8'', ''p9''],
       bgmUrl = Some '''', focusedPhotoIndex = None, customText = ''MERRY CHRISTMAS'' \<rparr>"

definition sixPhotos :: AppState where
  "sixPhotos =
     \<lparr> treeState = SCATTERED, useGestures = True, currentGesture = ''None'',
       photos = [''p0'', ''p1'', ''p2'', ''p3'', ''p4'', ''p5''],
       bgmUrl = Some '''', focusedPhotoIndex = None, customText = ''MERRY CHRISTMAS'' \<rparr>"

section \<open>The gesture classifier (\<open>HandTracker.tsx\<close>)\<close>

text \<open>One landmark of the detector: normalised \<open>x\<close>, \<open>y\<close> and relative depth \<open>z\<close>.\<close>

record Landmark =
  lm_x :: real
  lm_y :: real
  lm_z :: real

text \<open>The refs of the component and the \<open>active\<close> flag of its effect.\<close>

record Tracker =
  lastLandmarks :: "Landmark list list option"
  isProcessing :: bool
  lastInferenceTime :: int
  lastHandPos :: "(real \<times> real) option"
  lastAnalysisTime :: int
  active :: bool

text \<open>Reading a field of an element that the array does not have throws.\<close>

datatype error = TypeError

text \<open>The velocity check of \<open>analyzeGesture\<close>: the value of \<open>speed\<close>.\<close>

definition handSpeed :: "Tracker \<Rightarrow> real \<Rightarrow> real \<Rightarrow> int \<Rightarrow> real" where
  "handSpeed t handX handY now =
     (case lastHandPos t of
        None \<Rightarrow> 0
      | Some lastPos \<Rightarrow>
          if lastAnalysisTime t > 0 then
            (let dt = real_of_int (now - lastAnalysisTime t) / 1000
             in if dt > 0 then
                  (let dx = handX - fst lastPos;
                       dy = handY - snd lastPos
                   in sqrt (dx * dx + dy * dy) / dt)
                else 0)
          else 0)"

definition fingersOpenCount :: "Landmark list \<Rightarrow> nat" where
  "fingersOpenCount landmarks =
     (let isIndexOpen = lm_y (landmarks ! 8) < lm_y (landmarks ! 6);
          isMiddleOpen = lm_y (landmarks ! 12) < lm_y (landmarks ! 10);
          isRingOpen = lm_y (landmarks ! 16) < lm_y (landmarks ! 14);
          isPinkyOpen = lm_y (landmarks ! 20) < lm_y (landmarks ! 18)
      in length (filter (\<lambda>b. b) [isIndexOpen, isMiddleOpen, isRingOpen, isPinkyOpen]))"

definition pinchDistance :: "Landmark list \<Rightarrow> real" where
  "pinchDistance landmarks =
     sqrt ((lm_x (landmarks ! 8) - lm_x (landmarks ! 4))\<^sup>2 +
           (lm_y (landmarks ! 8) - lm_y (landmarks ! 4))\<^sup>2 +
           (lm_z (landmarks ! 8) - lm_z (landmarks ! 4))\<^sup>2)"

text \<open>
  \<open>analyzeGesture\<close>, with the time read from the clock as an argument.  It returns the
  refs as it leaves them and what it passes to \<open>onGestureUpdate\<close>.  An array shorter than
  the indices read throws: with no element 9 before anything is stored, otherwise (some
  index up to 20 missing) after the velocity memory has been updated.
\<close>

definition analyzeGesture ::
  "Landmark list \<Rightarrow> int \<Rightarrow> Tracker \<Rightarrow> Tracker \<times> (error + string \<times> (real \<times> real))" where
  "analyzeGesture landmarks now t =
     (if length landmarks \<le> 9 then (t, Inl TypeError)
      else
        (let handX = lm_x (landmarks ! 9);
             handY = lm_y (landmarks ! 9);
             speed = handSpeed t handX handY now;
             t' = t\<lparr> lastHandPos := Some (handX, handY), lastAnalysisTime := now \<rparr>;
             isMovingFast = speed > 1.0
         in if length landmarks \<le> 20 then (t', Inl TypeError)
            else
              (let count = fingersOpenCount landmarks;
                   dist = pinchDistance landmarks;
                   gesture =
                     (if dist < 0.06 \<and> \<not> isMovingFast then ''Pinch''
                      else if count = 0 then ''Fist''
                      else if count \<ge> 4 then ''Open''
                      else ''None'');
                   x = (0.5 - lm_x (landmarks ! 9)) * 2 * 1.5;
                   y = (lm_y (landmarks ! 9) - 0.5) * 2 * 1.5
               in (t', Inr (gesture, (x, y))))))"

text \<open>
  The \<open>onResults\<close> callback on \<open>results.multiHandLandmarks\<close>.  The outcome is what it
  passes to \<open>onGestureUpdate\<close>, if anything: the label and the optional rotation.
\<close>

definition onResults ::
  "Landmark list list option \<Rightarrow> int \<Rightarrow> Tracker \<Rightarrow>
     Tracker \<times> (error + (string \<times> (real \<times> real) option) option)" where
  "onResults multiHandLandmarks now t =
     (if \<not> active t then (t, Inr None)
      else
        (case multiHandLandmarks of
           Some (hand # rest) \<Rightarrow>
             (case analyzeGesture hand now (t\<lparr> lastLandmarks := Some (hand # rest) \<rparr>) of
                (t', Inl e) \<Rightarrow> (t', Inl e)
              | (t', Inr (gesture, rotation)) \<Rightarrow>
                  (t'\<lparr> isProcessing := False \<rparr>, Inr (Some (gesture, Some rotation))))
         | _ \<Rightarrow>
             (t\<lparr> lastLandmarks := None, lastHandPos := None, isProcessing := False \<rparr>,
              Inr (Some (''None'', None)))))"

subsection \<open>Samples of the scenarios\<close>



definition pinchHand :: "Landmark list" where
  "pinchHand = replicate 21 \<lparr> lm_x = 0.5, lm_y = 0.5, lm_z = 0 \<rparr>"

definition seenLeft :: Tracker where
  "seenLeft =
     \<lparr> lastLandmarks = None, isProcessing = True, lastInferenceTime = 1000,
       lastHandPos = Some (0.1, 0.5), lastAnalysisTime = 1000, active = True \<rparr>"

section \<open>The particle layout (\<open>TreeParticles\<close> in \<open>Scene.tsx\<close>)\<close>

datatype ParticleType = Ribbon | Core | Structure | Ornament

type_synonym vec3 = "real \<times> real \<times> real"

record Particle =
  gatheredPos :: vec3
  scatteredPos :: vec3
  lerpSpeed :: real
  phase :: real
  sizeScale :: real
  brightness :: real
  ptype :: ParticleType
  twinkleSpeed :: real
  twinkleOffset :: real
  isHeart :: bool

text \<open>
  \<open>Math.random()\<close> is a stream \<open>rnd\<close> of draws and a position in it: the \<open>k\<close>-th call
  made so far returns \<open>rnd k\<close>.  Every function below takes the position and returns the
  position it has reached.
\<close>

definition treeHeight :: real where "treeHeight = 15"
definition baseRadius :: real where "baseRadius = 7.5"
definition numSpirals :: nat where "numSpirals = 5"
definition loopsPerSpiral :: real where "loopsPerSpiral = 4.5"

definition coreCount :: "nat \<Rightarrow> nat" where
  "coreCount count = nat \<lfloor>real count * 0.15\<rfloor>"

text \<open>The acceptance test of the heart volume.\<close>

definition insideHeart :: "real \<Rightarrow> real \<Rightarrow> real \<Rightarrow> bool" where
  "insideHeart hx hy hz =
     (let x2 = hx * hx; y2 = hy * hy; z2 = hz * hz; y3 = y2 * hy
      in (x2 + 2.25 * z2 + y2 - 1) ^ 3 - x2 * y3 - 0.1125 * z2 * y3 < 0)"

text \<open>
  The \<open>while (!done && attempts < 100)\<close> loop on \<open>(done, attempts, hx, hy, hz)\<close>; it
  returns the variables and the position in the random stream when the loop is left.
\<close>

function heartLoop ::
  "(nat \<Rightarrow> real) \<Rightarrow> nat \<Rightarrow> bool \<Rightarrow> nat \<Rightarrow> vec3 \<Rightarrow> bool \<times> nat \<times> vec3 \<times> nat" where
  "heartLoop rnd p done attempts h =
     (if \<not> done \<and> attempts < 100 then
        (let hx = (rnd p * 3) - 1.5;
             hy = (rnd (p + 1) * 3) - 1.5;
             hz = (rnd (p + 2) * 3) - 1.5
         in heartLoop rnd (p + 3) (insideHeart hx hy hz) (attempts + 1) (hx, hy, hz))
      else (done, attempts, h, p))"
  by pat_completeness auto
termination
  by (relation "measure (\<lambda>(rnd, p, done, attempts, h). if done then 0 else 101 - attempts)") auto

declare heartLoop.simps [simp del]

text \<open>The heart branch: the loop, the fallback to the origin, the point before scaling.\<close>

definition heartPoint :: "(nat \<Rightarrow> real) \<Rightarrow> nat \<Rightarrow> vec3 \<times> nat \<times> nat" where
  "heartPoint rnd p =
     (case heartLoop rnd p False 0 (0, 0, 0) of
        (done, attempts, h, p') \<Rightarrow> ((if \<not> done then (0, 0, 0) else h), attempts, p'))"

text \<open>
  The gathered half of the loop body for index \<open>i\<close>: position, size scale, brightness,
  type, and the position reached in the random stream.
\<close>

definition gatheredPart ::
  "nat \<Rightarrow> (nat \<Rightarrow> real) \<Rightarrow> nat \<Rightarrow> nat \<Rightarrow> (vec3 \<times> real \<times> real \<times> ParticleType) \<times> nat" where
  "gatheredPart count rnd p i =
     (if i < coreCount count then
        (let h = (rnd p - 0.5) * treeHeight;
             ratio = (h + treeHeight / 2) / treeHeight;
             coneR = (1 - ratio) * baseRadius;
             r = sqrt (rnd (p + 1)) * coneR * 0.4;
             rTheta = rnd (p + 2) * pi * 2
         in (((cos rTheta * r, h, sin rTheta * r), 0.4 + rnd (p + 3) * 0.4, 0.4, Core), p + 4))
      else
        (let isOrnament = (i mod 30 = 0);
             isRibbon = (\<not> isOrnament \<and> i mod 6 = 0);
             type = (if isOrnament then Ornament else if isRibbon then Ribbon else Structure);
             tBase = rnd p;
             h = - treeHeight / 2 + tBase * treeHeight;
             radiusRatio = 1 - tBase;
             spiralIndex = i mod numSpirals;
             spiralOffset = (real spiralIndex / real numSpirals) * pi * 2;
             theta = tBase * loopsPerSpiral * pi * 2 + spiralOffset
         in if isRibbon then
              (let r = radiusRatio * baseRadius + 0.1
               in (((cos theta * r, h, sin theta * r), 1.2, 1.5, type), p + 1))
            else if isOrnament then
              (let ornamentTheta = theta + (rnd (p + 1) - 0.5);
                   r = radiusRatio * baseRadius + 0.4
               in (((cos ornamentTheta * r, h, sin ornamentTheta * r), 2.5, 2.0, type), p + 2))
            else
              (let rBase = radiusRatio * baseRadius;
                   rJitter = (rnd (p + 1) - 0.5) * 1.8;
                   hJitter = (rnd (p + 2) - 0.5) * 1.2;
                   thetaJitter = (rnd (p + 3) - 0.5) * 0.5;
                   r = max 0.2 (rBase + rJitter)
               in (((cos (theta + thetaJitter) * r, h + hJitter, sin (theta + thetaJitter) * r),
                    0.3 + rnd (p + 4) * 0.5, 0.7, type), p + 5))))"

text \<open>
  The scattered half: whether the particle is a heart member, its scattered position, the
  factor applied to the size scale, the attempts of the sampler, the position reached.
\<close>

definition scatteredPart :: "(nat \<Rightarrow> real) \<Rightarrow> nat \<Rightarrow> (bool \<times> vec3 \<times> real \<times> nat) \<times> nat" where
  "scatteredPart rnd p =
     (let heart = rnd p < 0.6
      in if heart then
           (case heartPoint rnd (p + 1) of
              ((hx, hy, hz), attempts, p') \<Rightarrow>
                ((heart, (hx * 1.2, hy * 1.2 - 3.5, hz * 1.2), 1, attempts), p'))
         else
           (let r = 8 + rnd (p + 1) * 42;
                theta = rnd (p + 2) * pi * 2
            in ((heart, (r * cos theta, (rnd (p + 3) - 0.5) * 30 + 5, r * sin theta), 1.5, 0),
                p + 4)))"

text \<open>One round of the \<open>for\<close> loop: the record pushed for index \<open>i\<close>.\<close>

definition makeParticle :: "nat \<Rightarrow> (nat \<Rightarrow> real) \<Rightarrow> nat \<Rightarrow> nat \<Rightarrow> Particle \<times> nat" where
  "makeParticle count rnd p i =
     (let tSpeed = rnd p * 5 + 1;
          tOffset = rnd (p + 1) * pi * 2
      in case gatheredPart count rnd (p + 2) i of
           ((gPos, scale, bright, type), p1) \<Rightarrow>
             (case scatteredPart rnd p1 of
                ((heart, sPos, factor, attempts), p2) \<Rightarrow>
                  (\<lparr> gatheredPos = gPos, scatteredPos = sPos,
                      lerpSpeed = 0.05 + rnd p2 * 0.1, phase = rnd (p2 + 1) * pi * 2,
                      sizeScale = scale * factor, brightness = bright, ptype = type,
                      twinkleSpeed = tSpeed, twinkleOffset = tOffset,
                      isHeart = heart \<rparr>,
                   p2 + 2)))"

text \<open>The \<open>for\<close> loop over \<open>0 \<le> i < count\<close>, on the array \<open>temp\<close> and the stream position.\<close>

definition pushParticle ::
  "nat \<Rightarrow> (nat \<Rightarrow> real) \<Rightarrow> Particle list \<times> nat \<Rightarrow> nat \<Rightarrow> Particle list \<times> nat" where
  "pushParticle count rnd acc i =
     (case makeParticle count rnd (snd acc) i of (particle, p') \<Rightarrow> (fst acc @ [particle], p'))"

definition particles :: "nat \<Rightarrow> (nat \<Rightarrow> real) \<Rightarrow> Particle list" where
  "particles count rnd = fst (foldl (pushParticle count rnd) ([], 0) [0..<count])"

subsection \<open>Notions of the properties\<close>


section \<open>Properties of the application controller\<close>

lemmas app_defs = handleGestureUpdate_def gestureUpdater_def addPhoto_def removePhoto_def
  toggleGesture_def setBgm_def setCustomText_def toggleTreeState_def handlePhotoClick_def

subsection \<open>Removing a photo\<close>

lemma nths_remove: "nths xs {i. i \<noteq> k} = take k xs @ drop (Suc k) xs"
proof (induction xs arbitrary: k)
  case Nil
  then show ?case by simp
next
  case (Cons x xs)
  show ?case
  proof (cases k)
    case 0
    then show ?thesis by (simp add: nths_Cons nths_all)
  next
    case (Suc k')
    then show ?thesis using Cons.IH [of k'] by (simp add: nths_Cons)
  qed
qed

lemma removePhoto_photos:
  "photos (removePhoto (int k) s) = take k (photos s) @ drop (Suc k) (photos s)"
  using nths_remove [of "photos s" k] by (simp add: removePhoto_def nths_def)

text \<open>
  Claim C1, as the code has it: \<open>removePhoto\<close> takes the photo at index \<open>k\<close> out of the list
  and changes nothing else.  The focused index and the scene state are the same after the
  removal as before, also when the focused index is \<open>k\<close>: the index then names the photo
  that followed the removed one, or no photo when the removed one was the last.
\<close>

theorem removePhoto_keeps_focus:
  "focusedPhotoIndex (removePhoto (int k) s) = focusedPhotoIndex s \<and>
   treeState (removePhoto (int k) s) = treeState s \<and>
   photos (removePhoto (int k) s) = take k (photos s) @ drop (Suc k) (photos s)"
  by (simp add: removePhoto_photos) (simp add: removePhoto_def)

text \<open>
  Five photos, the focus on index 3: removing photo 3 leaves the focus on index 3, which
  is now the photo that was at index 4.
\<close>

theorem removePhoto_focus_counterexample:
  "focusedPhotoIndex fivePhotos = Some 3 \<and>
   focusedPhotoIndex (removePhoto 3 fivePhotos) = Some 3 \<and>
   focusedPhotoIndex (removePhoto 3 fivePhotos) \<noteq> None \<and>
   photos (removePhoto 3 fivePhotos) = [''p0'', ''p1'', ''p2'', ''p4'']"
  by (simp add: fivePhotos_def removePhoto_def)

subsection \<open>Reachable scene states\<close>

lemma step_not_FOCUS: "treeState s \<noteq> FOCUS \<Longrightarrow> treeState (step s e) \<noteq> FOCUS"
  by (cases e) (auto simp: app_defs Let_def split: if_splits)

lemma run_not_FOCUS: "treeState s \<noteq> FOCUS \<Longrightarrow> treeState (run s evs) \<noteq> FOCUS"
  unfolding run_def by (induction evs arbitrary: s) (simp_all add: step_not_FOCUS)

text \<open>
  Claim C10: the type has the value \<open>FOCUS\<close>, and no handler assigns it.  After any
  sequence of gesture updates, toggles, photo clicks, photo additions and removals and the
  other handlers, from the initial state, the scene state is \<open>GATHERED\<close> or \<open>SCATTERED\<close>.
\<close>

theorem focus_state_unreachable:
  "treeState (run initialAppState evs) = GATHERED \<or>
   treeState (run initialAppState evs) = SCATTERED"
proof -
  have "treeState initialAppState \<noteq> FOCUS" by (simp add: initialAppState_def)
  then have "treeState (run initialAppState evs) \<noteq> FOCUS" by (rule run_not_FOCUS)
  then show ?thesis by (cases "treeState (run initialAppState evs)") simp_all
qed

subsection \<open>The focus invariant\<close>

lemma step_focusInv: "focusInv s \<Longrightarrow> focusInv (step s e)"
  by (cases e) (auto simp: focusInv_def app_defs Let_def split: if_splits)

lemma run_focusInv: "focusInv s \<Longrightarrow> focusInv (run s evs)"
  unfolding run_def by (induction evs arbitrary: s) (simp_all add: step_focusInv)

lemma step_into_GATHERED:
  "treeState (step s e) = GATHERED \<Longrightarrow> treeState s \<noteq> GATHERED \<Longrightarrow>
   focusedPhotoIndex (step s e) = None"
  by (cases e) (auto simp: app_defs Let_def split: if_splits)

lemma fist_clears:
  "useGestures s \<Longrightarrow>
   treeState (step s (GestureUpdate ''Fist'' r)) = GATHERED \<and>
   focusedPhotoIndex (step s (GestureUpdate ''Fist'' r)) = None"
  by (simp add: app_defs)

text \<open>
  Claim C5: a focused index is present only while the scene is scattered, and every
  handler keeps it so: the gesture handler for any label, the manual toggle, the photo
  click, and the handlers that do not touch the scene.  A step that takes the scene into
  \<open>GATHERED\<close> leaves no focused index; a fist does so also when the scene was gathered
  already.  The invariant holds in the initial state, hence in every state of a run.
\<close>

theorem focus_only_while_scattered:
  "(focusInv s \<longrightarrow> focusInv (step s e)) \<and>
   (treeState (step s e) = GATHERED \<and> treeState s \<noteq> GATHERED \<longrightarrow>
      focusedPhotoIndex (step s e) = None) \<and>
   (useGestures s \<longrightarrow>
      treeState (step s (GestureUpdate ''Fist'' r)) = GATHERED \<and>
      focusedPhotoIndex (step s (GestureUpdate ''Fist'' r)) = None) \<and>
   focusInv (run initialAppState evs)"
proof -
  have "focusInv initialAppState" by (simp add: focusInv_def initialAppState_def)
  then have "focusInv (run initialAppState evs)" by (rule run_focusInv)
  then show ?thesis using step_focusInv step_into_GATHERED fist_clears by blast
qed

theorem focus_only_while_scattered_witness:
  "focusInv fivePhotos \<and> focusInv (step fivePhotos ToggleTreeState) \<and>
   treeState (step fivePhotos ToggleTreeState) = GATHERED \<and> treeState fivePhotos \<noteq> GATHERED \<and>
   focusedPhotoIndex fivePhotos = Some 3 \<and>
   focusedPhotoIndex (step fivePhotos ToggleTreeState) = None \<and>
   useGestures fivePhotos \<and>
   focusedPhotoIndex (step fivePhotos (GestureUpdate ''Fist'' None)) = None"
proof -
  have a: "focusInv fivePhotos" by (simp add: focusInv_def fivePhotos_def)
  have b: "treeState (step fivePhotos ToggleTreeState) = GATHERED \<and> treeState fivePhotos \<noteq> GATHERED"
    by (simp add: fivePhotos_def toggleTreeState_def)
  have c: "useGestures fivePhotos" "focusedPhotoIndex fivePhotos = Some 3"
    by (simp_all add: fivePhotos_def)
  show ?thesis
    using focus_only_while_scattered [of fivePhotos ToggleTreeState None "[]"] a b c by blast
qed

section \<open>Properties of the pinch selection\<close>

subsection \<open>Rounding\<close>

lemma round_even_error: "\<bar>of_int (round_even q) - q\<bar> \<le> 1 / 2"
proof -
  have "of_int \<lfloor>q\<rfloor> \<le> q" "q < of_int \<lfloor>q\<rfloor> + 1" by linarith+
  then show ?thesis by (auto simp: round_even_def Let_def)
qed

lemma fl_error: "\<bar>fl x - x\<bar> \<le> \<bar>x\<bar> / 2 ^ 53"
proof (cases "x = 0")
  case True
  then show ?thesis by (simp add: fl_def)
next
  case False
  define e where "e = \<lfloor>log 2 \<bar>x\<bar>\<rfloor>"
  define u :: real where "u = 2 powr (of_int e - 52)"
  have u: "0 < u" by (simp add: u_def)
  have ax: "0 < \<bar>x\<bar>" using False by simp
  have "of_int e \<le> log 2 \<bar>x\<bar>" unfolding e_def by linarith
  then have "2 powr (of_int e) \<le> \<bar>x\<bar>" using ax by (simp add: le_log_iff)
  moreover have "2 powr (of_int e) = u * 2 ^ 52"
    unfolding u_def by (simp add: powr_diff)
  ultimately have lo: "u * 2 ^ 52 \<le> \<bar>x\<bar>" by simp
  have f: "fl x = of_int (round_even (x / u)) * u"
    using False by (simp add: fl_def Let_def e_def u_def)
  have "\<bar>fl x - x\<bar> = \<bar>of_int (round_even (x / u)) - x / u\<bar> * u"
  proof -
    have "fl x - x = (of_int (round_even (x / u)) - x / u) * u"
      using u by (simp add: f field_simps)
    then show ?thesis using u by (simp add: abs_mult)
  qed
  also have "\<dots> \<le> (1 / 2) * u"
    using round_even_error [of "x / u"] u by (intro mult_right_mono) simp_all
  also have "\<dots> = (u * 2 ^ 52) / 2 ^ 53" by simp
  also have "\<dots> \<le> \<bar>x\<bar> / 2 ^ 53" using lo by (intro divide_right_mono) simp_all
  finally show ?thesis .
qed

lemma fl_nonneg: "0 \<le> x \<Longrightarrow> 0 \<le> fl x"
  using fl_error [of x] by (simp add: abs_if split: if_splits) 

lemma fl_pos: "0 < x \<Longrightarrow> 0 < fl x"
  using fl_error [of x] by (simp add: abs_if split: if_splits) 

text \<open>The value of \<open>fl\<close> at a number between \<open>2 ^ 52\<close> and \<open>2 ^ 53\<close> units \<open>u\<close>.\<close>

lemma fl_eval:
  assumes "u = (2::real) powr (of_int k)" "2 ^ 52 * u \<le> \<bar>x\<bar>" "\<bar>x\<bar> < 2 ^ 53 * u"
    and "round_even (x / u) = m"
  shows "fl x = of_int m * u"
proof -
  have u: "0 < u" using assms(1) by simp
  have x: "x \<noteq> 0" "0 < \<bar>x\<bar>" using assms(2) u by auto
  have p: "2 powr (of_int (k + 52)) = 2 ^ 52 * u" "2 powr (of_int (k + 52) + 1) = 2 ^ 53 * u"
    unfolding assms(1) by (simp_all add: powr_add)
  have "\<lfloor>log 2 \<bar>x\<bar>\<rfloor> = k + 52"
    using assms(2,3) x(2) unfolding p [symmetric]
    by (subst floor_log_eq_powr_iff) simp_all
  then have "2 powr (of_int \<lfloor>log 2 \<bar>x\<bar>\<rfloor> - 52) = u" by (simp add: assms(1))
  then show ?thesis using x(1) assms(4) by (simp add: fl_def Let_def)
qed

lemma pow2_neg: "1 / 2 ^ n = (2::real) powr (of_int (- int n))"
  by (simp add: powr_minus powr_realpow divide_inverse)

lemma js_rem_small: "0 \<le> a \<Longrightarrow> a < b \<Longrightarrow> js_rem a b = a"
proof -
  assume a: "0 \<le> a" "a < b"
  then have "0 \<le> a / b" "a / b < 1" by simp_all
  then have "\<lfloor>a / b\<rfloor> = 0" by linarith
  then show ?thesis using \<open>0 \<le> a / b\<close> by (simp add: js_rem_def)
qed

subsection \<open>The loop returns the first least difference\<close>

lemma select_loop_argmin:
  "0 < n \<Longrightarrow> \<exists>k<n. foldl (selectStep t a) (-1, None) [0..<n] = (int k, Some (slotDiff t a k))
      \<and> (\<forall>j<n. slotDiff t a k \<le> slotDiff t a j) \<and> (\<forall>j<k. slotDiff t a k < slotDiff t a j)"
proof (induction n)
  case 0
  then show ?case by simp
next
  case (Suc n)
  show ?case
  proof (cases "n = 0")
    case True
    then show ?thesis by (simp add: selectStep_def)
  next
    case False
    then obtain k where k: "k < n"
      and res: "foldl (selectStep t a) (-1, None) [0..<n] = (int k, Some (slotDiff t a k))"
      and mn: "\<forall>j<n. slotDiff t a k \<le> slotDiff t a j"
      and fst: "\<forall>j<k. slotDiff t a k < slotDiff t a j"
      using Suc.IH by auto
    show ?thesis
    proof (cases "slotDiff t a n < slotDiff t a k")
      case True
      have "foldl (selectStep t a) (-1, None) [0..<Suc n] = (int n, Some (slotDiff t a n))"
        using res True by (simp add: selectStep_def)
      moreover have "\<forall>j<Suc n. slotDiff t a n \<le> slotDiff t a j"
        using True mn by (auto simp: less_Suc_eq intro: order_trans less_imp_le)
      moreover have "\<forall>j<n. slotDiff t a n < slotDiff t a j"
        using True mn by (auto intro: less_le_trans)
      ultimately show ?thesis by blast
    next
      case F: False
      have "foldl (selectStep t a) (-1, None) [0..<Suc n] = (int k, Some (slotDiff t a k))"
        using res F by (simp add: selectStep_def)
      moreover have "\<forall>j<Suc n. slotDiff t a k \<le> slotDiff t a j"
        using F mn by (auto simp: less_Suc_eq)
      moreover have "k < Suc n" using k by simp
      ultimately show ?thesis using fst by blast
    qed
  qed
qed

lemma closestIndex_first_argmin:
  assumes "0 < n"
  shows "\<exists>k<n. closestIndex t n = int k
           \<and> (\<forall>j<n. slotDiff t (angleStepOf n) k \<le> slotDiff t (angleStepOf n) j)
           \<and> (\<forall>j<k. slotDiff t (angleStepOf n) k < slotDiff t (angleStepOf n) j)"
proof -
  obtain k where "k < n"
    "foldl (selectStep t (angleStepOf n)) (-1, None) [0..<n] = (int k, Some (slotDiff t (angleStepOf n) k))"
    "\<forall>j<n. slotDiff t (angleStepOf n) k \<le> slotDiff t (angleStepOf n) j"
    "\<forall>j<k. slotDiff t (angleStepOf n) k < slotDiff t (angleStepOf n) j"
    using select_loop_argmin [OF assms, of t "angleStepOf n"] by blast
  then show ?thesis by (auto simp: closestIndex_def Let_def)
qed

lemma first_argmin_unique:
  fixes f :: "nat \<Rightarrow> real"
  assumes "c < n" "\<forall>j<n. f c \<le> f j" "\<forall>j<c. f c < f j"
    and "k < n" "\<forall>j<n. f k \<le> f j" "\<forall>j<k. f k < f j"
  shows "k = c"
proof (rule ccontr)
  assume "k \<noteq> c"
  then consider "k < c" | "c < k" by linarith
  then show False
  proof cases
    case 1
    then have "f c < f k" using assms(3) by simp
    moreover have "f k \<le> f c" using assms(1,5) by simp
    ultimately show False by simp
  next
    case 2
    then have "f k < f c" using assms(6) by simp
    moreover have "f c \<le> f k" using assms(4,2) by simp
    ultimately show False by simp
  qed
qed

lemma closestIndex_eqI:
  assumes "c < n"
    and "\<forall>j<n. slotDiff t (angleStepOf n) c \<le> slotDiff t (angleStepOf n) j"
    and "\<forall>j<c. slotDiff t (angleStepOf n) c < slotDiff t (angleStepOf n) j"
  shows "closestIndex t n = int c"
proof -
  have n: "0 < n" using assms(1) by simp
  obtain k where k: "k < n" "closestIndex t n = int k"
    "\<forall>j<n. slotDiff t (angleStepOf n) k \<le> slotDiff t (angleStepOf n) j"
    "\<forall>j<k. slotDiff t (angleStepOf n) k < slotDiff t (angleStepOf n) j"
    using closestIndex_first_argmin [OF n, of t] by blast
  have "k = c"
    using first_argmin_unique [of c n "slotDiff t (angleStepOf n)" k] assms k(1,3,4) by blast
  then show ?thesis using k(2) by simp
qed

subsection \<open>The computed differences against the arcs of the ideal circle\<close>

text \<open>
  \<open>n\<close> slots, at most \<open>2 ^ 32\<close> as an array has: the computed angle of slot \<open>j\<close> is within
  \<open>3 / 2 ^ 53\<close> of the circle \<open>Math.PI * 2\<close> from \<open>j\<close> exact steps, and the computed difference
  is within \<open>5 / 2 ^ 53\<close> of the circle from the shorter arc.
\<close>

lemma MathPI_pos: "0 < MathPI"
  by (simp add: MathPI_def)

lemma slot_gap:
  assumes "i + m \<le> j" "0 \<le> s"
  shows "real i * s + real m * s \<le> real j * s"
proof -
  have "real (i + m) \<le> real j" using assms(1) by (simp only: of_nat_le_iff)
  then have "real (i + m) * s \<le> real j * s" using assms(2) by (rule mult_right_mono)
  then show ?thesis by (simp add: distrib_right)
qed

lemma step_times: "0 < n \<Longrightarrow> real n * (MathPI * 2 / real n) = MathPI * 2"
  by simp

lemma step_large:
  assumes "0 < n" "n \<le> 2 ^ 32"
  shows "20 * (MathPI * 2 / 2 ^ 53) < MathPI * 2 / real n"
proof -
  have "real n \<le> 2 ^ 32" using assms(2) by (metis of_nat_le_iff of_nat_numeral of_nat_power)
  then have "MathPI * 2 / 2 ^ 32 \<le> MathPI * 2 / real n"
    using assms(1) MathPI_pos by (intro divide_left_mono) simp_all
  moreover have "20 * (MathPI * 2 / 2 ^ 53) < MathPI * 2 / 2 ^ 32"
    using MathPI_pos by simp
  ultimately show ?thesis by linarith
qed

lemma angleStep_error:
  assumes "0 < n"
  shows "\<bar>angleStepOf n - MathPI * 2 / real n\<bar> \<le> (MathPI * 2 / real n) / 2 ^ 53"
proof -
  have m: "max 1 n = n" using assms by simp
  have "0 \<le> MathPI * 2 / real n" using MathPI_pos by simp
  then have "\<bar>MathPI * 2 / real n\<bar> = MathPI * 2 / real n" by (rule abs_of_nonneg)
  then show ?thesis
    using fl_error [of "MathPI * 2 / real n"] by (simp only: angleStepOf_def m)
qed

lemma slot_error:
  assumes "0 < n" "j \<le> n"
  shows "\<bar>fl (real j * angleStepOf n) - real j * (MathPI * 2 / real n)\<bar> \<le> 3 * (MathPI * 2 / 2 ^ 53)"
proof -
  define T where "T = MathPI * 2"
  define s where "s = T / real n"
  define a where "a = angleStepOf n"
  define E where "E = T / 2 ^ 53"
  have T: "0 < T" using MathPI_pos by (simp add: T_def)
  have s: "0 < s" using T assms(1) by (simp add: s_def)
  have E: "0 < E" "E \<le> T" using T by (simp_all add: E_def)
  have ns: "real n * s = T" using assms(1) by (simp add: s_def)
  have ae: "\<bar>a - s\<bar> \<le> s / 2 ^ 53"
    using angleStep_error [OF assms(1)] by (simp only: a_def s_def T_def)
  have "real j \<le> real n" using assms(2) by simp
  then have "real j * s \<le> real n * s" using s by (intro mult_right_mono) simp_all
  then have js: "real j * s \<le> T" by (simp only: ns)
  have js0: "0 \<le> real j * s" using s by simp
  have "\<bar>real j * a - real j * s\<bar> = real j * \<bar>a - s\<bar>"
    by (simp add: right_diff_distrib [symmetric] abs_mult)
  also have "\<dots> \<le> real j * (s / 2 ^ 53)" using ae by (intro mult_left_mono) simp_all
  also have "\<dots> = (real j * s) / 2 ^ 53" by simp
  also have "\<dots> \<le> T / 2 ^ 53" using js by (intro divide_right_mono) simp_all
  finally have e1: "\<bar>real j * a - real j * s\<bar> \<le> E" by (simp only: E_def)
  have "\<bar>real j * a\<bar> \<le> 2 * T" using e1 js js0 E by linarith
  then have "\<bar>real j * a\<bar> / 2 ^ 53 \<le> (2 * T) / 2 ^ 53" by (intro divide_right_mono) simp_all
  then have e2: "\<bar>fl (real j * a) - real j * a\<bar> \<le> 2 * E"
    using fl_error [of "real j * a"] by (simp add: E_def)
  have "\<bar>fl (real j * a) - real j * s\<bar> \<le> 3 * E" using e1 e2 by linarith
  then show ?thesis by (simp only: a_def s_def T_def E_def)
qed

lemma slot_range:
  assumes "0 < n" "n \<le> 2 ^ 32" "j < n"
  shows "0 \<le> fl (real j * angleStepOf n) \<and> fl (real j * angleStepOf n) < MathPI * 2"
proof -
  define T where "T = MathPI * 2"
  define s where "s = T / real n"
  define E where "E = T / 2 ^ 53"
  have T: "0 < T" using MathPI_pos by (simp add: T_def)
  have s: "0 < s" using T assms(1) by (simp add: s_def)
  have ns: "real n * s = T" using assms(1) by (simp add: s_def)
  have big: "20 * E < s" using step_large [OF assms(1,2)] by (simp only: E_def s_def T_def)
  have "0 \<le> MathPI * 2 / real (max 1 n)" using MathPI_pos by simp
  then have "0 \<le> angleStepOf n" unfolding angleStepOf_def by (rule fl_nonneg)
  then have "0 \<le> real j * angleStepOf n" by simp
  then have lo: "0 \<le> fl (real j * angleStepOf n)" by (rule fl_nonneg)
  have "real j * s + real 1 * s \<le> real n * s"
    using assms(3) s by (intro slot_gap) simp_all
  then have js: "real j * s + s \<le> T" by (simp add: ns)
  have "\<bar>fl (real j * angleStepOf n) - real j * s\<bar> \<le> 3 * E"
    using slot_error [OF assms(1), of j] assms(3) by (simp add: s_def T_def E_def)
  then have "fl (real j * angleStepOf n) < T" using js big by linarith
  then show ?thesis using lo by (simp only: T_def) 
qed

lemma arc_close_far:
  fixes r :: real
  assumes "\<bar>r - (T - d)\<bar> \<le> E" "\<bar>d - D\<bar> \<le> 4 * E" "T / 2 < d"
  shows "\<bar>r - min D (T - D)\<bar> \<le> 5 * E"
proof (cases "D \<le> T - D")
  case True
  then have "min D (T - D) = D" by simp
  then show ?thesis using assms True by linarith
next
  case False
  then have "min D (T - D) = T - D" by simp
  then show ?thesis using assms False by linarith
qed

lemma arc_close_near:
  fixes d :: real
  assumes "\<bar>d - D\<bar> \<le> 4 * E" "d \<le> T / 2" "0 < E"
  shows "\<bar>d - min D (T - D)\<bar> \<le> 5 * E"
proof (cases "D \<le> T - D")
  case True
  then have "min D (T - D) = D" by simp
  then show ?thesis using assms True by linarith
next
  case False
  then have "min D (T - D) = T - D" by simp
  then show ?thesis using assms False by linarith
qed

lemma slotDiff_ideal:
  assumes "0 < n" "n \<le> 2 ^ 32" "j < n" "0 \<le> t" "t < MathPI * 2"
  shows "\<bar>slotDiff t (angleStepOf n) j -
           min \<bar>t - real j * (MathPI * 2 / real n)\<bar>
               (MathPI * 2 - \<bar>t - real j * (MathPI * 2 / real n)\<bar>)\<bar>
         \<le> 5 * (MathPI * 2 / 2 ^ 53)"
proof -
  define T where "T = MathPI * 2"
  define x where "x = real j * (T / real n)"
  define E where "E = T / 2 ^ 53"
  define p where "p = fl (real j * angleStepOf n)"
  define d where "d = \<bar>fl (t - p)\<bar>"
  have T: "0 < T" using MathPI_pos by (simp add: T_def)
  have E: "0 < E" "E \<le> T" using T by (simp_all add: E_def)
  have half: "MathPI = T / 2" by (simp add: T_def)
  have t: "0 \<le> t" "t < T" using assms(4,5) by (simp_all add: T_def)
  have p: "0 \<le> p" "p < T" using slot_range [OF assms(1,2,3)] by (simp_all add: p_def T_def)
  have rem: "js_rem p T = p" using p by (rule js_rem_small)
  have px: "\<bar>p - x\<bar> \<le> 3 * E"
    using slot_error [OF assms(1), of j] assms(3) by (simp add: p_def x_def T_def E_def)
  have "\<bar>t - p\<bar> \<le> T" using t p by linarith
  then have "\<bar>t - p\<bar> / 2 ^ 53 \<le> T / 2 ^ 53" by (intro divide_right_mono) simp_all
  then have fz: "\<bar>fl (t - p) - (t - p)\<bar> \<le> E" using fl_error [of "t - p"] by (simp add: E_def)
  have dD: "\<bar>d - \<bar>t - x\<bar>\<bar> \<le> 4 * E" using fz px unfolding d_def by linarith
  have dT: "0 \<le> d" "d \<le> T + E" using fz t p unfolding d_def by linarith+
  have sd: "slotDiff t (angleStepOf n) j = (if d > MathPI then fl (T - d) else d)"
    unfolding slotDiff_def Let_def p_def [symmetric] T_def [symmetric] rem d_def [symmetric]
    by (rule refl)
  have goal: "\<bar>slotDiff t (angleStepOf n) j - min \<bar>t - x\<bar> (T - \<bar>t - x\<bar>)\<bar> \<le> 5 * E"
  proof (cases "d > MathPI")
    case True
    then have dh: "T / 2 < d" by (simp add: half)
    have "\<bar>T - d\<bar> \<le> T" using dT dh T E by linarith
    then have "\<bar>T - d\<bar> / 2 ^ 53 \<le> T / 2 ^ 53" by (intro divide_right_mono) simp_all
    then have fr: "\<bar>fl (T - d) - (T - d)\<bar> \<le> E" using fl_error [of "T - d"] by (simp add: E_def)
    have "\<bar>fl (T - d) - min \<bar>t - x\<bar> (T - \<bar>t - x\<bar>)\<bar> \<le> 5 * E"
      using fr dD dh by (rule arc_close_far)
    then show ?thesis using True by (simp add: sd)
  next
    case False
    then have dh: "d \<le> T / 2" by (simp add: half)
    have "\<bar>d - min \<bar>t - x\<bar> (T - \<bar>t - x\<bar>)\<bar> \<le> 5 * E"
      using dD dh E(1) by (rule arc_close_near)
    then show ?thesis using False by (simp add: sd)
  qed
  show ?thesis using goal by (simp only: x_def T_def E_def)
qed

lemma closestIndex_near_slot:
  assumes "0 < n" "n \<le> 2 ^ 32" "k < n" "0 \<le> t" "t < MathPI * 2"
    and "\<bar>t - real k * (MathPI * 2 / real n)\<bar> \<le> 3 * (MathPI * 2 / 2 ^ 53)"
  shows "closestIndex t n = int k"
proof -
  define T where "T = MathPI * 2"
  define s where "s = T / real n"
  define E where "E = T / 2 ^ 53"
  define sd where "sd = slotDiff t (angleStepOf n)"
  define C where "C = (\<lambda>j. min \<bar>t - real j * s\<bar> (T - \<bar>t - real j * s\<bar>))"
  have T: "0 < T" using MathPI_pos by (simp add: T_def)
  have s: "0 < s" using T assms(1) by (simp add: s_def)
  have E: "0 < E" using T by (simp add: E_def)
  have ns: "real n * s = T" using assms(1) by (simp add: s_def)
  have big: "20 * E < s" using step_large [OF assms(1,2)] by (simp only: E_def s_def T_def)
  have near: "\<bar>t - real k * s\<bar> \<le> 3 * E" using assms(6) by (simp only: s_def T_def E_def)
  have id: "\<bar>sd j - C j\<bar> \<le> 5 * E" if "j < n" for j
    using slotDiff_ideal [OF assms(1,2) that assms(4,5)]
    by (simp only: sd_def C_def s_def T_def E_def)
  have top: "real j * s + s \<le> T" if "j < n" for j
  proof -
    have "real j * s + real 1 * s \<le> real n * s" using that s by (intro slot_gap) simp_all
    then show ?thesis by (simp add: ns)
  qed
  have bot: "0 \<le> real j * s" for j using s by simp
  have "C k \<le> \<bar>t - real k * s\<bar>" by (simp add: C_def)
  then have k8: "sd k \<le> 8 * E" using id [OF assms(3)] near by linarith
  have far: "8 * E < sd j" if j: "j < n" "j \<noteq> k" for j
  proof -
    have gap: "real j * s + s \<le> real k * s \<or> real k * s + s \<le> real j * s"
    proof (cases "j < k")
      case True
      then have "real j * s + real 1 * s \<le> real k * s" using s by (intro slot_gap) simp_all
      then show ?thesis by simp
    next
      case False
      then have "k < j" using j(2) by simp
      then have "real k * s + real 1 * s \<le> real j * s" using s by (intro slot_gap) simp_all
      then show ?thesis by simp
    qed
    have a: "s - 3 * E \<le> \<bar>t - real j * s\<bar>" using gap near by linarith
    have b: "s - 3 * E \<le> T - \<bar>t - real j * s\<bar>"
      using gap near top [OF j(1)] top [OF assms(3)] bot [of j] bot [of k] by linarith
    have "s - 3 * E \<le> C j" using a b by (simp add: C_def)
    then show ?thesis using id [OF j(1)] big by linarith
  qed
  have "closestIndex t n = int k"
  proof (rule closestIndex_eqI [OF assms(3)])
    show "\<forall>j<n. slotDiff t (angleStepOf n) k \<le> slotDiff t (angleStepOf n) j"
    proof (intro allI impI)
      fix j assume j: "j < n"
      show "slotDiff t (angleStepOf n) k \<le> slotDiff t (angleStepOf n) j"
      proof (cases "j = k")
        case True
        then show ?thesis by simp
      next
        case False
        then show ?thesis using far [OF j False] k8 by (simp add: sd_def)
      qed
    qed
    show "\<forall>j<k. slotDiff t (angleStepOf n) k < slotDiff t (angleStepOf n) j"
    proof (intro allI impI)
      fix j assume j: "j < k"
      then have "j < n" "j \<noteq> k" using assms(3) by simp_all
      then show "slotDiff t (angleStepOf n) k < slotDiff t (angleStepOf n) j"
        using far [of j] k8 by (simp add: sd_def)
    qed
  qed
  then show ?thesis .
qed

lemma closestIndex_enclosing:
  assumes "0 < n" "n \<le> 2 ^ 32" "k < n"
    and "real k * (MathPI * 2 / real n) \<le> t" "t < real (Suc k) * (MathPI * 2 / real n)"
  shows "closestIndex t n = int k \<or> closestIndex t n = int (Suc k mod n)"
proof -
  define T where "T = MathPI * 2"
  define s where "s = T / real n"
  define E where "E = T / 2 ^ 53"
  define sd where "sd = slotDiff t (angleStepOf n)"
  define C where "C = (\<lambda>j. min \<bar>t - real j * s\<bar> (T - \<bar>t - real j * s\<bar>))"
  have T: "0 < T" using MathPI_pos by (simp add: T_def)
  have s: "0 < s" using T assms(1) by (simp add: s_def)
  have E: "0 < E" using T by (simp add: E_def)
  have ns: "real n * s = T" using assms(1) by (simp add: s_def)
  have big: "20 * E < s" using step_large [OF assms(1,2)] by (simp only: E_def s_def T_def)
  have lo: "real k * s \<le> t" using assms(4) by (simp only: s_def T_def)
  have "t < real (Suc k) * s" using assms(5) by (simp only: s_def T_def)
  then have hi: "t < real k * s + s" by (simp add: distrib_right)
  have top: "real j * s + s \<le> T" if "j < n" for j
  proof -
    have "real j * s + real 1 * s \<le> real n * s" using that s by (intro slot_gap) simp_all
    then show ?thesis by (simp add: ns)
  qed
  have bot: "0 \<le> real j * s" for j using s by simp
  have "0 \<le> t" "t < T"
    using lo hi top [OF assms(3)] bot [of k] by linarith+
  then have t: "0 \<le> t" "t < MathPI * 2" by (simp_all add: T_def)
  have id: "\<bar>sd j - C j\<bar> \<le> 5 * E" if "j < n" for j
    using slotDiff_ideal [OF assms(1,2) that t]
    by (simp only: sd_def C_def s_def T_def E_def)
  obtain r where r: "r < n" "closestIndex t n = int r" "\<forall>j<n. sd r \<le> sd j"
    using closestIndex_first_argmin [OF assms(1), of t] unfolding sd_def by blast
  have Ck: "C k \<le> t - real k * s" using lo by (simp add: C_def)
  have "r = k \<or> r = Suc k mod n"
  proof (rule ccontr)
    assume "\<not> (r = k \<or> r = Suc k mod n)"
    then have ne: "r \<noteq> k" "r \<noteq> Suc k mod n" by simp_all
    show False
    proof (cases "Suc k < n")
      case True
      then have ne2: "r \<noteq> Suc k" using ne(2) by simp
      have k1: "real (Suc k) * s = real k * s + s" by (simp add: distrib_right)
      have "C (Suc k) \<le> \<bar>t - real (Suc k) * s\<bar>" by (simp add: C_def)
      then have Ck1: "C (Suc k) \<le> real k * s + s - t" unfolding k1 using hi by linarith
      have "real (Suc k) * s + s \<le> T" using True by (rule top)
      then have k2: "real k * s + 2 * s \<le> T" unfolding k1 by linarith
      have Cr: "s \<le> C r"
      proof (cases "r < k")
        case True
        then have "real r * s + real 1 * s \<le> real k * s" using s by (intro slot_gap) simp_all
        then have g: "real r * s + s \<le> real k * s" by simp
        have a: "s \<le> \<bar>t - real r * s\<bar>" using g lo by linarith
        have b: "s \<le> T - \<bar>t - real r * s\<bar>" using g lo hi k2 bot [of r] by linarith
        show ?thesis using a b by (simp add: C_def)
      next
        case False
        then have "Suc k + 1 \<le> r" using ne(1) ne2 by simp
        then have "real (Suc k) * s + real 1 * s \<le> real r * s" using s by (intro slot_gap) simp_all
        then have g: "real k * s + 2 * s \<le> real r * s" unfolding k1 by simp
        have a: "s \<le> \<bar>t - real r * s\<bar>" using g hi by linarith
        have b: "s \<le> T - \<bar>t - real r * s\<bar>" using g lo hi top [OF r(1)] bot [of k] by linarith
        show ?thesis using a b by (simp add: C_def)
      qed
      have "sd r \<le> sd k" "sd r \<le> sd (Suc k)" using r(3) assms(3) True by simp_all
      then show False
        using id [OF r(1)] id [OF assms(3)] id [OF True] Cr Ck Ck1 big by linarith
    next
      case False
      then have n: "n = Suc k" using assms(3) by simp
      then have ne0: "r \<noteq> 0" using ne(2) by simp
      have rk: "r < k" using r(1) ne(1) n by simp
      have "real (Suc k) * s = real k * s + s" by (simp add: distrib_right)
      then have kT: "real k * s + s = T" using ns unfolding n by simp
      have "C 0 \<le> T - \<bar>t - real 0 * s\<bar>" unfolding C_def by (rule min.cobounded2)
      then have C0: "C 0 \<le> real k * s + s - t" using t(1) by (simp add: kT)
      have "real 0 * s + real 1 * s \<le> real r * s" using ne0 s by (intro slot_gap) simp_all
      then have g0: "s \<le> real r * s" by simp
      have "real r * s + real 1 * s \<le> real k * s" using rk s by (intro slot_gap) simp_all
      then have g: "real r * s + s \<le> real k * s" by simp
      have a: "s \<le> \<bar>t - real r * s\<bar>" using g lo by linarith
      have b: "s \<le> T - \<bar>t - real r * s\<bar>" using g g0 lo hi kT by linarith
      have Cr: "s \<le> C r" using a b by (simp add: C_def)
      have "sd r \<le> sd k" "sd r \<le> sd 0" using r(3) assms(3,1) by simp_all
      then show False
        using id [OF r(1)] id [OF assms(3)] id [OF assms(1)] Cr Ck C0 big by linarith
    qed
  qed
  then show ?thesis using r(2) by auto
qed

subsection \<open>The scenarios in doubles\<close>

lemma fl_evalQ:
  assumes "2 ^ 52 * (1 / 2 ^ n) \<le> \<bar>x\<bar>" "\<bar>x\<bar> < 2 ^ 53 * (1 / 2 ^ n)"
    and "round_even (x / (1 / 2 ^ n)) = m" "v = of_int m * (1 / 2 ^ n)"
  shows "fl x = v"
  using fl_eval [OF pow2_neg assms(1,2,3)] assms(4) by simp

lemma slotDiff_eval_near:
  assumes "fl (real i * a) = p" "0 \<le> p" "p < MathPI * 2" "\<bar>fl (t - p)\<bar> = d" "d \<le> MathPI"
  shows "slotDiff t a i = d"
  using assms by (simp add: slotDiff_def Let_def js_rem_small)

lemma slotDiff_eval_far:
  assumes "fl (real i * a) = p" "0 \<le> p" "p < MathPI * 2" "\<bar>fl (t - p)\<bar> = d" "MathPI < d"
    and "fl (MathPI * 2 - d) = r"
  shows "slotDiff t a i = r"
  using assms by (simp add: slotDiff_def Let_def js_rem_small)

lemma angleStepOf_ten: "angleStepOf 10 = 176855943800711 / 281474976710656"
proof -
  have "fl (MathPI * 2 / real 10) = 176855943800711 / 281474976710656"
    by (rule fl_evalQ [where n = 53 and m = "5659390201622752"])
      (simp_all add: round_even_def Let_def MathPI_def)
  then show ?thesis by (simp add: angleStepOf_def)
qed

lemma slotDiff_ten_0: "slotDiff (MathPI / 2) (angleStepOf 10) (0) = 884279719003555 / 562949953421312"
proof -
  have p: "fl (real (0) * angleStepOf 10) = 0"
    unfolding angleStepOf_ten
    by (simp add: fl_def MathPI_def)
  have "fl (MathPI / 2 - 0) = 884279719003555 / 562949953421312"
    by (rule fl_evalQ [where n = 52 and m = "7074237752028440"])
      (simp_all add: round_even_def Let_def MathPI_def)
  then have d: "\<bar>fl (MathPI / 2 - 0)\<bar> = 884279719003555 / 562949953421312" by simp
  show ?thesis
    by (rule slotDiff_eval_near [OF p _ _ d]) (simp_all add: MathPI_def)
qed

lemma slotDiff_ten_1: "slotDiff (MathPI / 2) (angleStepOf 10) (Suc 0) = 530567831402133 / 562949953421312"
proof -
  have p: "fl (real (Suc 0) * angleStepOf 10) = 176855943800711 / 281474976710656"
    unfolding angleStepOf_ten
    by (rule fl_evalQ [where n = 53 and m = "5659390201622752"])
      (simp_all add: round_even_def Let_def MathPI_def)
  have "fl (MathPI / 2 - (176855943800711 / 281474976710656)) = 530567831402133 / 562949953421312"
    by (rule fl_evalQ [where n = 53 and m = "8489085302434128"])
      (simp_all add: round_even_def Let_def MathPI_def)
  then have d: "\<bar>fl (MathPI / 2 - (176855943800711 / 281474976710656))\<bar> = 530567831402133 / 562949953421312" by simp
  show ?thesis
    by (rule slotDiff_eval_near [OF p _ _ d]) (simp_all add: MathPI_def)
qed

lemma slotDiff_ten_2: "slotDiff (MathPI / 2) (angleStepOf 10) (2) = 176855943800711 / 562949953421312"
proof -
  have p: "fl (real (2) * angleStepOf 10) = 176855943800711 / 140737488355328"
    unfolding angleStepOf_ten
    by (rule fl_evalQ [where n = 52 and m = "5659390201622752"])
      (simp_all add: round_even_def Let_def MathPI_def)
  have "fl (MathPI / 2 - (176855943800711 / 140737488355328)) = 176855943800711 / 562949953421312"
    by (rule fl_evalQ [where n = 54 and m = "5659390201622752"])
      (simp_all add: round_even_def Let_def MathPI_def)
  then have d: "\<bar>fl (MathPI / 2 - (176855943800711 / 140737488355328))\<bar> = 176855943800711 / 562949953421312" by simp
  show ?thesis
    by (rule slotDiff_eval_near [OF p _ _ d]) (simp_all add: MathPI_def)
qed

lemma slotDiff_ten_3: "slotDiff (MathPI / 2) (angleStepOf 10) (3) = 176855943800711 / 562949953421312"
proof -
  have p: "fl (real (3) * angleStepOf 10) = 530567831402133 / 281474976710656"
    unfolding angleStepOf_ten
    by (rule fl_evalQ [where n = 52 and m = "8489085302434128"])
      (simp_all add: round_even_def Let_def MathPI_def)
  have "fl (MathPI / 2 - (530567831402133 / 281474976710656)) = - (176855943800711 / 562949953421312)"
    by (rule fl_evalQ [where n = 54 and m = "-5659390201622752"])
      (simp_all add: round_even_def Let_def MathPI_def)
  then have d: "\<bar>fl (MathPI / 2 - (530567831402133 / 281474976710656))\<bar> = 176855943800711 / 562949953421312" by simp
  show ?thesis
    by (rule slotDiff_eval_near [OF p _ _ d]) (simp_all add: MathPI_def)
qed

lemma slotDiff_ten_4: "slotDiff (MathPI / 2) (angleStepOf 10) (4) = 530567831402133 / 562949953421312"
proof -
  have p: "fl (real (4) * angleStepOf 10) = 176855943800711 / 70368744177664"
    unfolding angleStepOf_ten
    by (rule fl_evalQ [where n = 51 and m = "5659390201622752"])
      (simp_all add: round_even_def Let_def MathPI_def)
  have "fl (MathPI / 2 - (176855943800711 / 70368744177664)) = - (530567831402133 / 562949953421312)"
    by (rule fl_evalQ [where n = 53 and m = "-8489085302434128"])
      (simp_all add: round_even_def Let_def MathPI_def)
  then have d: "\<bar>fl (MathPI / 2 - (176855943800711 / 70368744177664))\<bar> = 530567831402133 / 562949953421312" by simp
  show ?thesis
    by (rule slotDiff_eval_near [OF p _ _ d]) (simp_all add: MathPI_def)
qed

lemma slotDiff_ten_5: "slotDiff (MathPI / 2) (angleStepOf 10) (5) = 884279719003555 / 562949953421312"
proof -
  have p: "fl (real (5) * angleStepOf 10) = 884279719003555 / 281474976710656"
    unfolding angleStepOf_ten
    by (rule fl_evalQ [where n = 51 and m = "7074237752028440"])
      (simp_all add: round_even_def Let_def MathPI_def)
  have "fl (MathPI / 2 - (884279719003555 / 281474976710656)) = - (884279719003555 / 562949953421312)"
    by (rule fl_evalQ [where n = 52 and m = "-7074237752028440"])
      (simp_all add: round_even_def Let_def MathPI_def)
  then have d: "\<bar>fl (MathPI / 2 - (884279719003555 / 281474976710656))\<bar> = 884279719003555 / 562949953421312" by simp
  show ?thesis
    by (rule slotDiff_eval_near [OF p _ _ d]) (simp_all add: MathPI_def)
qed

lemma slotDiff_ten_6: "slotDiff (MathPI / 2) (angleStepOf 10) (6) = 1237991606604977 / 562949953421312"
proof -
  have p: "fl (real (6) * angleStepOf 10) = 530567831402133 / 140737488355328"
    unfolding angleStepOf_ten
    by (rule fl_evalQ [where n = 51 and m = "8489085302434128"])
      (simp_all add: round_even_def Let_def MathPI_def)
  have "fl (MathPI / 2 - (530567831402133 / 140737488355328)) = - (1237991606604977 / 562949953421312)"
    by (rule fl_evalQ [where n = 51 and m = "-4951966426419908"])
      (simp_all add: round_even_def Let_def MathPI_def)
  then have d: "\<bar>fl (MathPI / 2 - (530567831402133 / 140737488355328))\<bar> = 1237991606604977 / 562949953421312" by simp
  show ?thesis
    by (rule slotDiff_eval_near [OF p _ _ d]) (simp_all add: MathPI_def)
qed

lemma slotDiff_ten_7: "slotDiff (MathPI / 2) (angleStepOf 10) (7) = 1591703494206399 / 562949953421312"
proof -
  have p: "fl (real (7) * angleStepOf 10) = 1237991606604977 / 281474976710656"
    unfolding angleStepOf_ten
    by (rule fl_evalQ [where n = 50 and m = "4951966426419908"])
      (simp_all add: round_even_def Let_def MathPI_def)
  have "fl (MathPI / 2 - (1237991606604977 / 281474976710656)) = - (1591703494206399 / 562949953421312)"
    by (rule fl_evalQ [where n = 51 and m = "-6366813976825596"])
      (simp_all add: round_even_def Let_def MathPI_def)
  then have d: "\<bar>fl (MathPI / 2 - (1237991606604977 / 281474976710656))\<bar> = 1591703494206399 / 562949953421312" by simp
  show ?thesis
    by (rule slotDiff_eval_near [OF p _ _ d]) (simp_all add: MathPI_def)
qed

lemma slotDiff_ten_8: "slotDiff (MathPI / 2) (angleStepOf 10) (8) = 1591703494206399 / 562949953421312"
proof -
  have p: "fl (real (8) * angleStepOf 10) = 176855943800711 / 35184372088832"
    unfolding angleStepOf_ten
    by (rule fl_evalQ [where n = 50 and m = "5659390201622752"])
      (simp_all add: round_even_def Let_def MathPI_def)
  have "fl (MathPI / 2 - (176855943800711 / 35184372088832)) = - (1945415381807821 / 562949953421312)"
    by (rule fl_evalQ [where n = 51 and m = "-7781661527231284"])
      (simp_all add: round_even_def Let_def MathPI_def)
  then have d: "\<bar>fl (MathPI / 2 - (176855943800711 / 35184372088832))\<bar> = 1945415381807821 / 562949953421312" by simp
  have r: "fl (MathPI * 2 - (1945415381807821 / 562949953421312)) = 1591703494206399 / 562949953421312"
    by (rule fl_evalQ [where n = 51 and m = "6366813976825596"])
      (simp_all add: round_even_def Let_def MathPI_def)
  show ?thesis
    by (rule slotDiff_eval_far [OF p _ _ d _ r]) (simp_all add: MathPI_def)
qed

lemma slotDiff_ten_9: "slotDiff (MathPI / 2) (angleStepOf 10) (9) = 1237991606604977 / 562949953421312"
proof -
  have p: "fl (real (9) * angleStepOf 10) = 1591703494206399 / 281474976710656"
    unfolding angleStepOf_ten
    by (rule fl_evalQ [where n = 50 and m = "6366813976825596"])
      (simp_all add: round_even_def Let_def MathPI_def)
  have "fl (MathPI / 2 - (1591703494206399 / 281474976710656)) = - (2299127269409243 / 562949953421312)"
    by (rule fl_evalQ [where n = 50 and m = "-4598254538818486"])
      (simp_all add: round_even_def Let_def MathPI_def)
  then have d: "\<bar>fl (MathPI / 2 - (1591703494206399 / 281474976710656))\<bar> = 2299127269409243 / 562949953421312" by simp
  have r: "fl (MathPI * 2 - (2299127269409243 / 562949953421312)) = 1237991606604977 / 562949953421312"
    by (rule fl_evalQ [where n = 51 and m = "4951966426419908"])
      (simp_all add: round_even_def Let_def MathPI_def)
  show ?thesis
    by (rule slotDiff_eval_far [OF p _ _ d _ r]) (simp_all add: MathPI_def)
qed

lemma closestIndex_ten: "closestIndex (MathPI / 2) 10 = 2"
proof -
  have c: "j = 0 \<or> j = Suc 0 \<or> j = 2 \<or> j = 3 \<or> j = 4 \<or> j = 5 \<or> j = 6 \<or> j = 7 \<or> j = 8 \<or> j = 9" if "j < 10" for j :: nat
    using that by presburger
  have "closestIndex (MathPI / 2) 10 = int 2"
  proof (rule closestIndex_eqI)
    show "(2::nat) < 10" by simp
    show "\<forall>j<10. slotDiff (MathPI / 2) (angleStepOf 10) 2 \<le> slotDiff (MathPI / 2) (angleStepOf 10) j"
    proof (intro allI impI)
      fix j :: nat assume j: "j < 10"
      show "slotDiff (MathPI / 2) (angleStepOf 10) 2 \<le> slotDiff (MathPI / 2) (angleStepOf 10) j"
        using c [OF j] by (elim disjE) (simp_all add: slotDiff_ten_0 slotDiff_ten_1 slotDiff_ten_2 slotDiff_ten_3 slotDiff_ten_4 slotDiff_ten_5 slotDiff_ten_6 slotDiff_ten_7 slotDiff_ten_8 slotDiff_ten_9)
    qed
    show "\<forall>j<2. slotDiff (MathPI / 2) (angleStepOf 10) 2 < slotDiff (MathPI / 2) (angleStepOf 10) j"
    proof (intro allI impI)
      fix j :: nat assume "j < 2"
      then have "j = 0 \<or> j = Suc 0" by presburger
      then show "slotDiff (MathPI / 2) (angleStepOf 10) 2 < slotDiff (MathPI / 2) (angleStepOf 10) j"
        by ((elim disjE)?, simp_all add: slotDiff_ten_0 slotDiff_ten_1 slotDiff_ten_2 slotDiff_ten_3 slotDiff_ten_4 slotDiff_ten_5 slotDiff_ten_6 slotDiff_ten_7 slotDiff_ten_8 slotDiff_ten_9)
    qed
  qed
  then show ?thesis by simp
qed

lemma angleStepOf_six: "angleStepOf 6 = 4716158501352293 / 4503599627370496"
proof -
  have "fl (MathPI * 2 / real 6) = 4716158501352293 / 4503599627370496"
    by (rule fl_evalQ [where n = 52 and m = "4716158501352293"])
      (simp_all add: round_even_def Let_def MathPI_def)
  then show ?thesis by (simp add: angleStepOf_def)
qed

lemma slotDiff_six_0: "slotDiff (MathPI / 2) (angleStepOf 6) (0) = 884279719003555 / 562949953421312"
proof -
  have p: "fl (real (0) * angleStepOf 6) = 0"
    unfolding angleStepOf_six
    by (simp add: fl_def MathPI_def)
  have "fl (MathPI / 2 - 0) = 884279719003555 / 562949953421312"
    by (rule fl_evalQ [where n = 52 and m = "7074237752028440"])
      (simp_all add: round_even_def Let_def MathPI_def)
  then have d: "\<bar>fl (MathPI / 2 - 0)\<bar> = 884279719003555 / 562949953421312" by simp
  show ?thesis
    by (rule slotDiff_eval_near [OF p _ _ d]) (simp_all add: MathPI_def)
qed

lemma slotDiff_six_1: "slotDiff (MathPI / 2) (angleStepOf 6) (Suc 0) = 2358079250676147 / 4503599627370496"
proof -
  have p: "fl (real (Suc 0) * angleStepOf 6) = 4716158501352293 / 4503599627370496"
    unfolding angleStepOf_six
    by (rule fl_evalQ [where n = 52 and m = "4716158501352293"])
      (simp_all add: round_even_def Let_def MathPI_def)
  have "fl (MathPI / 2 - (4716158501352293 / 4503599627370496)) = 2358079250676147 / 4503599627370496"
    by (rule fl_evalQ [where n = 53 and m = "4716158501352294"])
      (simp_all add: round_even_def Let_def MathPI_def)
  then have d: "\<bar>fl (MathPI / 2 - (4716158501352293 / 4503599627370496))\<bar> = 2358079250676147 / 4503599627370496" by simp
  show ?thesis
    by (rule slotDiff_eval_near [OF p _ _ d]) (simp_all add: MathPI_def)
qed

lemma slotDiff_six_2: "slotDiff (MathPI / 2) (angleStepOf 6) (2) = 1179039625338073 / 2251799813685248"
proof -
  have p: "fl (real (2) * angleStepOf 6) = 4716158501352293 / 2251799813685248"
    unfolding angleStepOf_six
    by (rule fl_evalQ [where n = 51 and m = "4716158501352293"])
      (simp_all add: round_even_def Let_def MathPI_def)
  have "fl (MathPI / 2 - (4716158501352293 / 2251799813685248)) = - (1179039625338073 / 2251799813685248)"
    by (rule fl_evalQ [where n = 53 and m = "-4716158501352292"])
      (simp_all add: round_even_def Let_def MathPI_def)
  then have d: "\<bar>fl (MathPI / 2 - (4716158501352293 / 2251799813685248))\<bar> = 1179039625338073 / 2251799813685248" by simp
  show ?thesis
    by (rule slotDiff_eval_near [OF p _ _ d]) (simp_all add: MathPI_def)
qed

lemma slotDiff_six_3: "slotDiff (MathPI / 2) (angleStepOf 6) (3) = 884279719003555 / 562949953421312"
proof -
  have p: "fl (real (3) * angleStepOf 6) = 884279719003555 / 281474976710656"
    unfolding angleStepOf_six
    by (rule fl_evalQ [where n = 51 and m = "7074237752028440"])
      (simp_all add: round_even_def Let_def MathPI_def)
  have "fl (MathPI / 2 - (884279719003555 / 281474976710656)) = - (884279719003555 / 562949953421312)"
    by (rule fl_evalQ [where n = 52 and m = "-7074237752028440"])
      (simp_all add: round_even_def Let_def MathPI_def)
  then have d: "\<bar>fl (MathPI / 2 - (884279719003555 / 281474976710656))\<bar> = 884279719003555 / 562949953421312" by simp
  show ?thesis
    by (rule slotDiff_eval_near [OF p _ _ d]) (simp_all add: MathPI_def)
qed

lemma slotDiff_six_4: "slotDiff (MathPI / 2) (angleStepOf 6) (4) = 2947599063345183 / 1125899906842624"
proof -
  have p: "fl (real (4) * angleStepOf 6) = 4716158501352293 / 1125899906842624"
    unfolding angleStepOf_six
    by (rule fl_evalQ [where n = 50 and m = "4716158501352293"])
      (simp_all add: round_even_def Let_def MathPI_def)
  have "fl (MathPI / 2 - (4716158501352293 / 1125899906842624)) = - (2947599063345183 / 1125899906842624)"
    by (rule fl_evalQ [where n = 51 and m = "-5895198126690366"])
      (simp_all add: round_even_def Let_def MathPI_def)
  then have d: "\<bar>fl (MathPI / 2 - (4716158501352293 / 1125899906842624))\<bar> = 2947599063345183 / 1125899906842624" by simp
  show ?thesis
    by (rule slotDiff_eval_near [OF p _ _ d]) (simp_all add: MathPI_def)
qed

lemma slotDiff_six_5: "slotDiff (MathPI / 2) (angleStepOf 6) (5) = 92112470729537 / 35184372088832"
proof -
  have p: "fl (real (5) * angleStepOf 6) = 2947599063345183 / 562949953421312"
    unfolding angleStepOf_six
    by (rule fl_evalQ [where n = 50 and m = "5895198126690366"])
      (simp_all add: round_even_def Let_def MathPI_def)
  have "fl (MathPI / 2 - (2947599063345183 / 562949953421312)) = - (515829836085407 / 140737488355328)"
    by (rule fl_evalQ [where n = 51 and m = "-8253277377366512"])
      (simp_all add: round_even_def Let_def MathPI_def)
  then have d: "\<bar>fl (MathPI / 2 - (2947599063345183 / 562949953421312))\<bar> = 515829836085407 / 140737488355328" by simp
  have r: "fl (MathPI * 2 - (515829836085407 / 140737488355328)) = 92112470729537 / 35184372088832"
    by (rule fl_evalQ [where n = 51 and m = "5895198126690368"])
      (simp_all add: round_even_def Let_def MathPI_def)
  show ?thesis
    by (rule slotDiff_eval_far [OF p _ _ d _ r]) (simp_all add: MathPI_def)
qed

lemma closestIndex_six: "closestIndex (MathPI / 2) 6 = 2"
proof -
  have c: "j = 0 \<or> j = Suc 0 \<or> j = 2 \<or> j = 3 \<or> j = 4 \<or> j = 5" if "j < 6" for j :: nat
    using that by presburger
  have "closestIndex (MathPI / 2) 6 = int 2"
  proof (rule closestIndex_eqI)
    show "(2::nat) < 6" by simp
    show "\<forall>j<6. slotDiff (MathPI / 2) (angleStepOf 6) 2 \<le> slotDiff (MathPI / 2) (angleStepOf 6) j"
    proof (intro allI impI)
      fix j :: nat assume j: "j < 6"
      show "slotDiff (MathPI / 2) (angleStepOf 6) 2 \<le> slotDiff (MathPI / 2) (angleStepOf 6) j"
        using c [OF j] by (elim disjE) (simp_all add: slotDiff_six_0 slotDiff_six_1 slotDiff_six_2 slotDiff_six_3 slotDiff_six_4 slotDiff_six_5)
    qed
    show "\<forall>j<2. slotDiff (MathPI / 2) (angleStepOf 6) 2 < slotDiff (MathPI / 2) (angleStepOf 6) j"
    proof (intro allI impI)
      fix j :: nat assume "j < 2"
      then have "j = 0 \<or> j = Suc 0" by presburger
      then show "slotDiff (MathPI / 2) (angleStepOf 6) 2 < slotDiff (MathPI / 2) (angleStepOf 6) j"
        by ((elim disjE)?, simp_all add: slotDiff_six_0 slotDiff_six_1 slotDiff_six_2 slotDiff_six_3 slotDiff_six_4 slotDiff_six_5)
    qed
  qed
  then show ?thesis by simp
qed

lemma fl_one: "fl 1 = 1"
  by (rule fl_evalQ [where n = 52 and m = "4503599627370496"])
    (simp_all add: round_even_def Let_def)

lemma targetAngleOf_zero: "targetAngleOf (0, y) = MathPI / 2"
proof -
  have "fl 0 = 0" by (simp add: fl_def)
  then show ?thesis
    using MathPI_pos
    by (simp add: targetAngleOf_def Math_sin_def Math_cos_def Math_atan2_def fl_one)
qed

lemma closestIndex_ten_at_rest: "closestIndex (targetAngleOf (0, y)) 10 = 2"
  by (simp only: targetAngleOf_zero closestIndex_ten)

lemma closestIndex_six_at_rest: "closestIndex (targetAngleOf (0, y)) 6 = 2"
  by (simp only: targetAngleOf_zero closestIndex_six)

text \<open>
  Claim C6, as the code has it: for a list of \<open>n > 0\<close> photos (at most \<open>2 ^ 32\<close>, as an array
  has), slot \<open>i\<close> at angle \<open>i * (2 pi / n)\<close> with \<open>2 pi\<close> the double \<open>Math.PI * 2\<close>, and a
  target angle in \<open>[0, 2 pi)\<close>, the selection returns a valid index \<open>k < n\<close> whose computed
  difference is least among all slots and strictly below that of every earlier slot:
  among equal computed differences the first encountered wins.  The computed difference
  of a slot is the shorter of its two arcs up to \<open>5 / 2 ^ 53\<close> of the circle.  A target at
  the angle of slot \<open>k\<close>, up to \<open>3 / 2 ^ 53\<close> of the circle, selects \<open>k\<close>.  A target between
  slot \<open>k\<close> and the next selects one of these two (the next of the last slot is slot 0),
  never another slot; which of the two it is midway between them depends on the last bit
  of the computed differences.
\<close>

theorem angular_selector_nearest_slot:
  assumes "0 < n" "n \<le> 2 ^ 32" "0 \<le> t" "t < MathPI * 2"
  shows "(\<exists>k<n. closestIndex t n = int k
            \<and> (\<forall>j<n. slotDiff t (angleStepOf n) k \<le> slotDiff t (angleStepOf n) j)
            \<and> (\<forall>j<k. slotDiff t (angleStepOf n) k < slotDiff t (angleStepOf n) j))
       \<and> (\<forall>j<n. \<bar>slotDiff t (angleStepOf n) j -
                    min \<bar>t - real j * (MathPI * 2 / real n)\<bar>
                        (MathPI * 2 - \<bar>t - real j * (MathPI * 2 / real n)\<bar>)\<bar>
                  \<le> 5 * (MathPI * 2 / 2 ^ 53))
       \<and> (\<forall>k<n. \<bar>t - real k * (MathPI * 2 / real n)\<bar> \<le> 3 * (MathPI * 2 / 2 ^ 53) \<longrightarrow>
                   closestIndex t n = int k)
       \<and> (\<forall>k<n. real k * (MathPI * 2 / real n) \<le> t \<and> t < real (Suc k) * (MathPI * 2 / real n) \<longrightarrow>
                   closestIndex t n = int k \<or> closestIndex t n = int (Suc k mod n))"
proof (intro conjI)
  show "\<exists>k<n. closestIndex t n = int k
            \<and> (\<forall>j<n. slotDiff t (angleStepOf n) k \<le> slotDiff t (angleStepOf n) j)
            \<and> (\<forall>j<k. slotDiff t (angleStepOf n) k < slotDiff t (angleStepOf n) j)"
    using assms(1) by (rule closestIndex_first_argmin)
  show "\<forall>j<n. \<bar>slotDiff t (angleStepOf n) j -
                    min \<bar>t - real j * (MathPI * 2 / real n)\<bar>
                        (MathPI * 2 - \<bar>t - real j * (MathPI * 2 / real n)\<bar>)\<bar>
                  \<le> 5 * (MathPI * 2 / 2 ^ 53)"
    using slotDiff_ideal [OF assms(1,2) _ assms(3,4)] by blast
  show "\<forall>k<n. \<bar>t - real k * (MathPI * 2 / real n)\<bar> \<le> 3 * (MathPI * 2 / 2 ^ 53) \<longrightarrow>
                   closestIndex t n = int k"
    using closestIndex_near_slot [OF assms(1,2) _ assms(3,4)] by blast
  show "\<forall>k<n. real k * (MathPI * 2 / real n) \<le> t \<and> t < real (Suc k) * (MathPI * 2 / real n) \<longrightarrow>
                   closestIndex t n = int k \<or> closestIndex t n = int (Suc k mod n)"
    using closestIndex_enclosing [OF assms(1,2)] by blast
qed

theorem angular_selector_nearest_slot_witness:
  "(0::nat) < 4 \<and> (4::nat) \<le> 2 ^ 32 \<and> 0 \<le> MathPI / 2 \<and> MathPI / 2 < MathPI * 2 \<and>
   closestIndex (MathPI / 2) 4 = 1"
proof -
  have h: "(0::nat) < 4" "(4::nat) \<le> 2 ^ 32" "0 \<le> MathPI / 2" "MathPI / 2 < MathPI * 2"
    using MathPI_pos by simp_all
  have a: "closestIndex (MathPI / 2) 4 = int 1"
  proof (rule angular_selector_nearest_slot
      [OF h, THEN conjunct2, THEN conjunct2, THEN conjunct1, rule_format])
    show "(1::nat) < 4" by simp
    show "\<bar>MathPI / 2 - real 1 * (MathPI * 2 / real 4)\<bar> \<le> 3 * (MathPI * 2 / 2 ^ 53)"
      using MathPI_pos by simp
  qed
  have "closestIndex (MathPI / 2) 4 = 1" unfolding a by simp
  then show ?thesis using h by (intro conjI)
qed

text \<open>
  Six photos and the hand at rest: the target \<open>Math.PI / 2\<close> is midway between slot 1 and
  slot 2 of the circle, the computed difference of slot 2 is the smaller by one unit in
  the last place, and slot 2, the later of the two, is selected.
\<close>

theorem angular_selector_tie_counterexample:
  "MathPI / 2 - real 1 * (MathPI * 2 / real 6) = real 2 * (MathPI * 2 / real 6) - MathPI / 2 \<and>
   0 \<le> MathPI / 2 \<and> MathPI / 2 < MathPI * 2 \<and>
   slotDiff (MathPI / 2) (angleStepOf 6) 1 = 2358079250676147 / 4503599627370496 \<and>
   slotDiff (MathPI / 2) (angleStepOf 6) 2 = 2358079250676146 / 4503599627370496 \<and>
   closestIndex (MathPI / 2) 6 = 2 \<and>
   closestIndex (MathPI / 2) 6 \<noteq> 1 \<and>
   focusedPhotoIndex (handleGestureUpdate ''Pinch'' (Some (0, 0)) sixPhotos) = Some 2"
proof -
  have h: "useGestures sixPhotos" "treeState sixPhotos = SCATTERED"
    "currentGesture sixPhotos \<noteq> ''Pinch''" "length (photos sixPhotos) = 6"
    by (simp_all add: sixPhotos_def)
  have "focusedPhotoIndex (handleGestureUpdate ''Pinch'' (Some (0, 0)) sixPhotos) = Some 2"
    using h by (simp add: handleGestureUpdate_def gestureUpdater_def closestIndex_six_at_rest)
  moreover have "slotDiff (MathPI / 2) (angleStepOf 6) 1 = 2358079250676147 / 4503599627370496"
    "slotDiff (MathPI / 2) (angleStepOf 6) 2 = 2358079250676146 / 4503599627370496"
    using slotDiff_six_1 slotDiff_six_2 by simp_all
  ultimately show ?thesis using MathPI_pos by (simp add: closestIndex_six)
qed

text \<open>
  Claim C2, as the code has it: with ten photos, the scene scattered, gestures enabled and
  the directional signal \<open>(0, 0)\<close>, a pinch on a rising edge sets the focused index to 2.
  The signal puts the camera at \<open>(sin 0, cos 0)\<close>, which is the angle \<open>Math.PI / 2\<close> in the
  coordinates of the photos, not 0; that angle is midway between slot 2 and slot 3, whose
  computed differences are the same double, and the first of the two is taken.  The
  difference of slot 0 is \<open>Math.PI / 2\<close>.
\<close>

theorem pinch_at_rest_ten_photos:
  assumes "useGestures s" "treeState s = SCATTERED" "currentGesture s \<noteq> ''Pinch''"
    and "length (photos s) = 10"
  shows "focusedPhotoIndex (handleGestureUpdate ''Pinch'' (Some (0, 0)) s) = Some 2 \<and>
         treeState (handleGestureUpdate ''Pinch'' (Some (0, 0)) s) = SCATTERED \<and>
         targetAngleOf (0, 0) = MathPI / 2 \<and>
         slotDiff (MathPI / 2) (angleStepOf 10) 2 = 176855943800711 / 562949953421312 \<and>
         slotDiff (MathPI / 2) (angleStepOf 10) 3 = 176855943800711 / 562949953421312 \<and>
         slotDiff (MathPI / 2) (angleStepOf 10) 0 = MathPI / 2"
proof -
  have "focusedPhotoIndex (handleGestureUpdate ''Pinch'' (Some (0, 0)) s) = Some 2"
    using assms by (simp add: handleGestureUpdate_def gestureUpdater_def closestIndex_ten_at_rest)
  moreover have "treeState (handleGestureUpdate ''Pinch'' (Some (0, 0)) s) = SCATTERED"
    using assms by (simp add: handleGestureUpdate_def gestureUpdater_def)
  moreover have "slotDiff (MathPI / 2) (angleStepOf 10) 0 = MathPI / 2"
    using slotDiff_ten_0 by (simp add: MathPI_def)
  ultimately show ?thesis
    using slotDiff_ten_2 slotDiff_ten_3 by (simp add: targetAngleOf_zero)
qed

theorem pinch_at_rest_ten_photos_witness:
  "useGestures tenPhotos \<and> treeState tenPhotos = SCATTERED \<and> currentGesture tenPhotos \<noteq> ''Pinch'' \<and>
   length (photos tenPhotos) = 10 \<and>
   focusedPhotoIndex (handleGestureUpdate ''Pinch'' (Some (0, 0)) tenPhotos) = Some 2"
proof -
  have h: "useGestures tenPhotos" "treeState tenPhotos = SCATTERED"
    "currentGesture tenPhotos \<noteq> ''Pinch''" "length (photos tenPhotos) = 10"
    by (simp_all add: tenPhotos_def)
  show ?thesis using pinch_at_rest_ten_photos [OF h] h by simp
qed

text \<open>The scenario at ten concrete photos: the focused index is not 0.\<close>

theorem pinch_at_rest_ten_photos_counterexample:
  "useGestures tenPhotos \<and> treeState tenPhotos = SCATTERED \<and> currentGesture tenPhotos \<noteq> ''Pinch'' \<and>
   length (photos tenPhotos) = 10 \<and>
   focusedPhotoIndex (handleGestureUpdate ''Pinch'' (Some (0, 0)) tenPhotos) \<noteq> Some 0"
proof -
  have h: "useGestures tenPhotos" "treeState tenPhotos = SCATTERED"
    "currentGesture tenPhotos \<noteq> ''Pinch''" "length (photos tenPhotos) = 10"
    by (simp_all add: tenPhotos_def)
  have "focusedPhotoIndex (handleGestureUpdate ''Pinch'' (Some (0, 0)) tenPhotos) = Some 2"
    using h by (simp add: handleGestureUpdate_def gestureUpdater_def closestIndex_ten_at_rest)
  then show ?thesis using h by simp
qed

subsection \<open>The pinch branch\<close>

text \<open>
  Claim C3, as the code has it: with gestures enabled, a pinch sets the focused index to
  the selected slot exactly when the stored label is not a pinch, the scene is scattered
  and there is a photo; otherwise the focused index stays.  The scene state stays in every
  case.  Along the labels None, Pinch, Pinch, Fist, Pinch the rising edges are at
  positions 1 and 4 and nowhere else, and the selection is made at position 1 only, when
  the scene is scattered with a photo there: at position 4 the fist before it has gathered
  the scene, and the pinch changes nothing.
\<close>

theorem pinch_selects_on_rising_edge_only:
  assumes "useGestures s"
  shows "focusedPhotoIndex (handleGestureUpdate ''Pinch'' rotation s) =
           (if currentGesture s \<noteq> ''Pinch'' \<and> treeState s = SCATTERED \<and> photos s \<noteq> []
            then Some (closestIndex
                         (targetAngleOf (case rotation of None \<Rightarrow> (0, 0) | Some r \<Rightarrow> r))
                         (length (photos s)))
            else focusedPhotoIndex s) \<and>
         treeState (handleGestureUpdate ''Pinch'' rotation s) = treeState s \<and>
         along isRisingEdge s
           [GestureUpdate ''None'' r0, GestureUpdate ''Pinch'' r1, GestureUpdate ''Pinch'' r2,
            GestureUpdate ''Fist'' r3, GestureUpdate ''Pinch'' r4]
           = [False, True, False, False, True] \<and>
         along selectionFires s
           [GestureUpdate ''None'' r0, GestureUpdate ''Pinch'' r1, GestureUpdate ''Pinch'' r2,
            GestureUpdate ''Fist'' r3, GestureUpdate ''Pinch'' r4]
           = [False, treeState s = SCATTERED \<and> photos s \<noteq> [], False, False, False]"
  using assms by (simp add: app_defs isRisingEdge_def selectionFires_def Let_def)

theorem pinch_selects_on_rising_edge_only_witness:
  "useGestures tenPhotos \<and>
   focusedPhotoIndex tenPhotos = None \<and>
   focusedPhotoIndex (handleGestureUpdate ''Pinch'' None tenPhotos) = Some 2 \<and>
   treeState (handleGestureUpdate ''Pinch'' None tenPhotos) = SCATTERED \<and>
   along selectionFires tenPhotos
     [GestureUpdate ''None'' None, GestureUpdate ''Pinch'' None, GestureUpdate ''Pinch'' None,
      GestureUpdate ''Fist'' None, GestureUpdate ''Pinch'' None]
     = [False, True, False, False, False]"
proof -
  have h: "useGestures tenPhotos" "treeState tenPhotos = SCATTERED"
    "currentGesture tenPhotos \<noteq> ''Pinch''" "length (photos tenPhotos) = 10"
    "photos tenPhotos \<noteq> []" "focusedPhotoIndex tenPhotos = None"
    by (simp_all add: tenPhotos_def)
  show ?thesis
    using pinch_selects_on_rising_edge_only [OF h(1), of None None None None None None] h
    by (simp add: closestIndex_ten_at_rest)
qed

text \<open>
  Ten photos, scattered, along the labels None, Pinch, Pinch, Fist, Pinch: there is a
  rising edge at position 4 and no selection there.  The fist at position 3 has gathered
  the scene and cleared the focus, and the last pinch changes neither.
\<close>

theorem pinch_after_fist_counterexample:
  "along isRisingEdge tenPhotos
     [GestureUpdate ''None'' None, GestureUpdate ''Pinch'' None, GestureUpdate ''Pinch'' None,
      GestureUpdate ''Fist'' None, GestureUpdate ''Pinch'' None]
     = [False, True, False, False, True] \<and>
   along selectionFires tenPhotos
     [GestureUpdate ''None'' None, GestureUpdate ''Pinch'' None, GestureUpdate ''Pinch'' None,
      GestureUpdate ''Fist'' None, GestureUpdate ''Pinch'' None]
     = [False, True, False, False, False] \<and>
   \<not> along selectionFires tenPhotos
       [GestureUpdate ''None'' None, GestureUpdate ''Pinch'' None, GestureUpdate ''Pinch'' None,
        GestureUpdate ''Fist'' None, GestureUpdate ''Pinch'' None] ! 4 \<and>
   treeState (run tenPhotos
     [GestureUpdate ''None'' None, GestureUpdate ''Pinch'' None, GestureUpdate ''Pinch'' None,
      GestureUpdate ''Fist'' None, GestureUpdate ''Pinch'' None]) = GATHERED \<and>
   focusedPhotoIndex (run tenPhotos
     [GestureUpdate ''None'' None, GestureUpdate ''Pinch'' None, GestureUpdate ''Pinch'' None,
      GestureUpdate ''Fist'' None, GestureUpdate ''Pinch'' None]) = None"
  by (simp add: app_defs isRisingEdge_def selectionFires_def tenPhotos_def run_def Let_def)

section \<open>Properties of the gesture classifier\<close>


lemma analyzeGesture_label:
  assumes "length landmarks > 20"
  shows "snd (analyzeGesture landmarks now t) =
           Inr (if pinchDistance landmarks < 0.06 \<and>
                   \<not> handSpeed t (lm_x (landmarks ! 9)) (lm_y (landmarks ! 9)) now > 1.0
                then ''Pinch''
                else if fingersOpenCount landmarks = 0 then ''Fist''
                else if fingersOpenCount landmarks \<ge> 4 then ''Open''
                else ''None'',
                ((0.5 - lm_x (landmarks ! 9)) * 2 * 1.5, (lm_y (landmarks ! 9) - 0.5) * 2 * 1.5))"
  using assms by (simp add: analyzeGesture_def Let_def)

lemma analyzeGesture_refs:
  assumes "length landmarks > 9"
  shows "fst (analyzeGesture landmarks now t) =
           t\<lparr> lastHandPos := Some (lm_x (landmarks ! 9), lm_y (landmarks ! 9)),
              lastAnalysisTime := now \<rparr>"
  using assms by (simp add: analyzeGesture_def Let_def)





subsection \<open>Losing the hand\<close>

lemma onResults_lost:
  assumes "active t" "hands = None \<or> hands = Some []"
  shows "onResults hands now t =
           (t\<lparr> lastLandmarks := None, lastHandPos := None, isProcessing := False \<rparr>,
            Inr (Some (''None'', None)))"
  using assms by (auto simp: onResults_def)

lemma handSpeed_no_position: "lastHandPos t = None \<Longrightarrow> handSpeed t handX handY now = 0"
  by (simp add: handSpeed_def)

lemma onResults_hand:
  assumes "active t" "length hand > 20"
  shows "snd (onResults (Some (hand # rest)) now t) =
           Inr (Some (if pinchDistance hand < 0.06 \<and>
                         \<not> handSpeed t (lm_x (hand ! 9)) (lm_y (hand ! 9)) now > 1.0
                      then ''Pinch''
                      else if fingersOpenCount hand = 0 then ''Fist''
                      else if fingersOpenCount hand \<ge> 4 then ''Open''
                      else ''None'',
                      Some ((0.5 - lm_x (hand ! 9)) * 2 * 1.5, (lm_y (hand ! 9) - 0.5) * 2 * 1.5)))"
proof -
  let ?t = "t\<lparr> lastLandmarks := Some (hand # rest) \<rparr>"
  have sp: "handSpeed ?t x y now = handSpeed t x y now" for x y
    by (simp add: handSpeed_def split: option.splits)
  obtain t' r where a: "analyzeGesture hand now ?t = (t', r)" by (cases "analyzeGesture hand now ?t")
  have "r = snd (analyzeGesture hand now ?t)" using a by simp
  then have r: "r = Inr (if pinchDistance hand < 0.06 \<and>
                         \<not> handSpeed t (lm_x (hand ! 9)) (lm_y (hand ! 9)) now > 1.0
                      then ''Pinch''
                      else if fingersOpenCount hand = 0 then ''Fist''
                      else if fingersOpenCount hand \<ge> 4 then ''Open''
                      else ''None'',
                      ((0.5 - lm_x (hand ! 9)) * 2 * 1.5, (lm_y (hand ! 9) - 0.5) * 2 * 1.5))"
    unfolding analyzeGesture_label [OF assms(2)] sp .
  show ?thesis
    using assms(1) a unfolding r by (simp add: onResults_def)
qed

text \<open>
  Claim C9, as the code has it: when an active callback reports no hand (no landmark
  array, or an empty one), the classifier emits the label None with no rotation, which is
  a result and not an error, and clears the last palm position; the last timestamp stays
  as it was.  The speed is computed only from a stored position, so the next sample has
  speed 0 whatever the position and the time: it is not marked as moving fast, and a pinch
  distance below 0.06 gives Pinch.  In the controller the label None changes neither the
  scene state nor the focused index.
\<close>

theorem hand_lost_clears_position:
  assumes "active t" "hands = None \<or> hands = Some []"
  shows "snd (onResults hands now t) = Inr (Some (''None'', None)) \<and>
         lastHandPos (fst (onResults hands now t)) = None \<and>
         lastAnalysisTime (fst (onResults hands now t)) = lastAnalysisTime t \<and>
         active (fst (onResults hands now t)) \<and>
         handSpeed (fst (onResults hands now t)) handX handY now' = 0 \<and>
         (length hand > 20 \<longrightarrow>
            snd (onResults (Some (hand # rest)) now' (fst (onResults hands now t))) =
              Inr (Some (if pinchDistance hand < 0.06 then ''Pinch''
                         else if fingersOpenCount hand = 0 then ''Fist''
                         else if fingersOpenCount hand \<ge> 4 then ''Open''
                         else ''None'',
                         Some ((0.5 - lm_x (hand ! 9)) * 2 * 1.5, (lm_y (hand ! 9) - 0.5) * 2 * 1.5)))) \<and>
         treeState (handleGestureUpdate ''None'' None s) = treeState s \<and>
         focusedPhotoIndex (handleGestureUpdate ''None'' None s) = focusedPhotoIndex s"
proof -
  let ?t = "fst (onResults hands now t)"
  have l: "onResults hands now t =
           (t\<lparr> lastLandmarks := None, lastHandPos := None, isProcessing := False \<rparr>,
            Inr (Some (''None'', None)))"
    using assms by (rule onResults_lost)
  have p: "lastHandPos ?t = None" and a: "active ?t" using assms(1) by (simp_all add: l)
  have z: "handSpeed ?t x y now' = 0" for x y using p by (rule handSpeed_no_position)
  have n: "length hand > 20 \<longrightarrow>
            snd (onResults (Some (hand # rest)) now' ?t) =
              Inr (Some (if pinchDistance hand < 0.06 then ''Pinch''
                         else if fingersOpenCount hand = 0 then ''Fist''
                         else if fingersOpenCount hand \<ge> 4 then ''Open''
                         else ''None'',
                         Some ((0.5 - lm_x (hand ! 9)) * 2 * 1.5, (lm_y (hand ! 9) - 0.5) * 2 * 1.5)))"
    using onResults_hand [OF a, of hand rest now'] by (simp add: z)
  have s: "treeState (handleGestureUpdate ''None'' None s) = treeState s \<and>
         focusedPhotoIndex (handleGestureUpdate ''None'' None s) = focusedPhotoIndex s"
    by (simp add: handleGestureUpdate_def gestureUpdater_def)
  show ?thesis using p a z n s by (simp add: l)
qed

lemma pinchHand_facts: "length pinchHand > 20" "pinchDistance pinchHand = 0"
  by (simp_all add: pinchHand_def pinchDistance_def)

theorem hand_lost_clears_position_witness:
  "active seenLeft \<and>
   snd (onResults None 1033 seenLeft) = Inr (Some (''None'', None)) \<and>
   lastHandPos (fst (onResults None 1033 seenLeft)) = None \<and>
   map_sum id (map_option fst)
     (snd (onResults (Some [pinchHand]) 1066 (fst (onResults None 1033 seenLeft)))) =
     Inr (Some ''Pinch'') \<and>
   map_sum id (map_option fst) (snd (onResults (Some [pinchHand]) 1066 seenLeft)) =
     Inr (Some ''Fist'')"
proof -
  have a: "active seenLeft" by (simp add: seenLeft_def)
  have "snd (onResults (Some [pinchHand]) 1066 (fst (onResults None 1033 seenLeft))) =
          Inr (Some (''Pinch'', Some ((0.5 - lm_x (pinchHand ! 9)) * 2 * 1.5, (lm_y (pinchHand ! 9) - 0.5) * 2 * 1.5)))"
    using hand_lost_clears_position
            [OF a, where hands = None and now = 1033 and hand = pinchHand and rest = "[]" and now' = 1066] pinchHand_facts
    by simp
  moreover have "snd (onResults None 1033 seenLeft) = Inr (Some (''None'', None))"
    "lastHandPos (fst (onResults None 1033 seenLeft)) = None"
    using hand_lost_clears_position [OF a, where hands = None and now = 1033] by simp_all
  moreover have "handSpeed seenLeft (lm_x (pinchHand ! 9)) (lm_y (pinchHand ! 9)) 1066 > 1"
    by (simp add: handSpeed_def seenLeft_def pinchHand_def Let_def)
  then have "map_sum id (map_option fst) (snd (onResults (Some [pinchHand]) 1066 seenLeft)) =
     Inr (Some ''Fist'')"
    using onResults_hand [OF a pinchHand_facts(1), of "[]" 1066] 
    by (simp add: pinchHand_facts) (simp add: fingersOpenCount_def pinchHand_def)
  ultimately show ?thesis using a by simp
qed

text \<open>
  A tracker that saw the palm at time 1000 and is told at 1033 that the hand is gone: the
  timestamp of the velocity memory is still 1000, not the initial 0.
\<close>

theorem hand_lost_timestamp_counterexample:
  "active seenLeft \<and>
   lastAnalysisTime (fst (onResults None 1033 seenLeft)) = 1000 \<and>
   \<not> (lastHandPos (fst (onResults None 1033 seenLeft)) = None \<and>
       lastAnalysisTime (fst (onResults None 1033 seenLeft)) = 0)"
  by (simp add: onResults_def seenLeft_def)

section \<open>Properties of the particle layout\<close>

subsection \<open>Categories\<close>

lemma coreCount_div: "coreCount count = 15 * count div 100"
proof -
  have "real count * 0.15 = real (15 * count) / real 100" by simp
  then have "\<lfloor>real count * 0.15\<rfloor> = \<lfloor>real (15 * count) / real 100\<rfloor>" by (rule arg_cong)
  also have "\<dots> = int (15 * count div 100)" by (rule floor_divide_of_nat_eq)
  finally show ?thesis by (simp add: coreCount_def)
qed

lemma gatheredPart_type:
  "snd (snd (snd (fst (gatheredPart count rnd p i)))) =
     (if i < coreCount count then Core
      else if i mod 30 = 0 then Ornament
      else if i mod 6 = 0 then Ribbon
      else Structure)"
  by (simp add: gatheredPart_def Let_def)

lemma makeParticle_type:
  "ptype (fst (makeParticle count rnd p i)) =
     (if i < coreCount count then Core
      else if i mod 30 = 0 then Ornament
      else if i mod 6 = 0 then Ribbon
      else Structure)"
proof -
  obtain g s b ty p1 where g: "gatheredPart count rnd (p + 2) i = ((g, s, b, ty), p1)"
    by (metis prod.exhaust)
  obtain h sp f a p2 where s: "scatteredPart rnd p1 = ((h, sp, f, a), p2)"
    by (metis prod.exhaust)
  have "ptype (fst (makeParticle count rnd p i)) = ty"
    using g s by (simp add: makeParticle_def Let_def)
  moreover have "ty = snd (snd (snd (fst (gatheredPart count rnd (p + 2) i))))"
    unfolding g by simp
  ultimately show ?thesis by (simp only: gatheredPart_type)
qed

lemma pushParticle_types:
  "map ptype (fst (foldl (pushParticle count rnd) acc is)) =
     map ptype (fst acc) @
     map (\<lambda>i. if i < coreCount count then Core
               else if i mod 30 = 0 then Ornament
               else if i mod 6 = 0 then Ribbon
               else Structure) is"
proof (induction "is" arbitrary: acc)
  case Nil
  then show ?case by simp
next
  case (Cons i "is")
  obtain q p' where m: "makeParticle count rnd (snd acc) i = (q, p')" by (metis prod.exhaust)
  have q: "ptype q = (if i < coreCount count then Core
               else if i mod 30 = 0 then Ornament
               else if i mod 6 = 0 then Ribbon
               else Structure)"
    using makeParticle_type [of count rnd "snd acc" i] by (simp add: m)
  have "pushParticle count rnd acc i = (fst acc @ [q], p')"
    by (simp add: pushParticle_def m)
  then show ?case using Cons.IH [of "(fst acc @ [q], p')"] q by simp
qed

lemma particles_length: "length (particles count rnd) = count"
proof -
  have "map ptype (particles count rnd) =
          map (\<lambda>i. if i < coreCount count then Core
               else if i mod 30 = 0 then Ornament
               else if i mod 6 = 0 then Ribbon
               else Structure) [0..<count]"
    using pushParticle_types [of count rnd "([], 0)" "[0..<count]"]
    by (simp add: particles_def)
  then have "length (map ptype (particles count rnd)) =
          length (map (\<lambda>i. if i < coreCount count then Core
               else if i mod 30 = 0 then Ornament
               else if i mod 6 = 0 then Ribbon
               else Structure) [0..<count])"
    by (rule arg_cong)
  then show ?thesis by simp
qed

text \<open>
  Claim C7: the category of a particle is a function of its index and the particle count
  alone.  Index \<open>i\<close> is core when \<open>i\<close> is below the floor of 0.15 times the count;
  otherwise ornament when \<open>i\<close> is a multiple of 30, ribbon when it is a multiple of 6 (and
  not of 30), and structure in every other case.  The random draws do not enter: two
  generations for the same count give the same categories, index by index.
\<close>

theorem category_by_index:
  "map ptype (particles count rnd) =
     map (\<lambda>i. if i < nat \<lfloor>0.15 * real count\<rfloor> then Core
               else if i mod 30 = 0 then Ornament
               else if i mod 6 = 0 then Ribbon
               else Structure) [0..<count] \<and>
   length (particles count rnd) = count \<and>
   nat \<lfloor>0.15 * real count\<rfloor> = 15 * count div 100 \<and>
   map ptype (particles count rnd) = map ptype (particles count rnd')"
proof -
  have c: "nat \<lfloor>0.15 * real count\<rfloor> = coreCount count"
    by (simp add: coreCount_def mult.commute)
  have t: "map ptype (particles count r) =
     map (\<lambda>i. if i < coreCount count then Core
               else if i mod 30 = 0 then Ornament
               else if i mod 6 = 0 then Ribbon
               else Structure) [0..<count]" for r
    using pushParticle_types [of count r "([], 0)" "[0..<count]"] by (simp add: particles_def)
  have l: "length (particles count rnd) = count" by (rule particles_length)
  show ?thesis unfolding c using t [of rnd] t [of rnd'] l coreCount_div by simp
qed

theorem category_by_index_witness:
  "length (particles 40 (\<lambda>k. 1 / 2)) = 40 \<and>
   nat \<lfloor>0.15 * real 40\<rfloor> = 6 \<and>
   ptype (particles 40 (\<lambda>k. 1 / 2) ! 5) = Core \<and>
   ptype (particles 40 (\<lambda>k. 1 / 2) ! 6) = Ribbon \<and>
   ptype (particles 40 (\<lambda>k. 1 / 2) ! 7) = Structure \<and>
   ptype (particles 40 (\<lambda>k. 1 / 2) ! 30) = Ornament"
proof -
  let ?P = "particles 40 (\<lambda>k. 1 / 2)"
  let ?f = "\<lambda>i::nat. if i < nat \<lfloor>0.15 * real 40\<rfloor> then Core
               else if i mod 30 = 0 then Ornament
               else if i mod 6 = 0 then Ribbon
               else Structure"
  note t = category_by_index [of 40 "\<lambda>k. 1 / 2" "\<lambda>k. 1 / 2"]
  have l: "length ?P = 40" and c: "nat \<lfloor>0.15 * real 40\<rfloor> = 6" using t by simp_all
  have m: "map ptype ?P = map ?f [0..<40]" using t by blast
  have n: "ptype (?P ! i) = ?f i" if "i < 40" for i
  proof -
    have "map ptype ?P ! i = map ?f [0..<40] ! i" by (simp only: m)
    then show ?thesis using that l by simp
  qed
  have "ptype (?P ! 5) = Core" "ptype (?P ! 6) = Ribbon" "ptype (?P ! 7) = Structure"
    "ptype (?P ! 30) = Ornament"
    using n [of 5] n [of 6] n [of 7] n [of 30] c by simp_all
  then show ?thesis using l c by simp
qed

subsection \<open>The heart sampler\<close>














end
